theory Spec2Isabelle
  imports Complex_Main
begin

section \<open>Color Dash: shared vocabulary of the two variants\<close>

text \<open>
  The repository holds two implementations of the same arcade game:
  \<^verbatim>\<open>src/chatgpt.py\<close> (a three-state machine, cyclic zone rotation, one
  active centre colour, a fall speed stored in every shape) and
  \<^verbatim>\<open>src/gemini.py\<close> (a single game loop, clamped zone shifting, matching
  by rectangle overlap, one fall speed shared by all shapes).
  Both are embedded below. Everything that comes from the outside world is an input of the
  model: the event queue of a frame, the clock readings and the random draws.
  The sound calls are recorded as a log of notifications; the log entry is written where
  the source reaches the call site (\<^verbatim>\<open>if match_sound: match_sound.play()\<close> in
  chatgpt.py, \<^verbatim>\<open>play_sound(match_sound)\<close> in gemini.py), whether or not a sound
  object is loaded.
\<close>

datatype colour = RED | GREEN | BLUE

datatype shape_kind = Circle | Square | Triangle

datatype key = K_LEFT | K_RIGHT | K_SPACE | K_s | K_other

datatype event = QUIT | KEYDOWN key | OTHER_EVENT

datatype notification = OnMatch | OnMiss | OnGameOver

datatype py_error = ValueError

subsection \<open>The high-score file and Python's integer conversions\<close>

text \<open>
  The store is the text of the high-score file, or \<open>None\<close> when the file does not
  exist. \<open>py_int\<close> follows Python's \<^verbatim>\<open>int(str)\<close> on ASCII text: surrounding
  whitespace is ignored, one optional sign, then decimal digits with single underscores
  allowed between digits; \<open>None\<close> stands for \<^verbatim>\<open>ValueError\<close>.
  \<open>py_str\<close> is \<^verbatim>\<open>str(int)\<close>.
\<close>

definition is_space :: "char \<Rightarrow> bool" where
  "is_space c = (c \<in> set [CHR 0x09, CHR 0x0A, CHR 0x0B, CHR 0x0C, CHR 0x0D,
                           CHR 0x1C, CHR 0x1D, CHR 0x1E, CHR 0x1F, CHR 0x20])"

definition strip :: "string \<Rightarrow> string" where
  "strip s = rev (dropWhile is_space (rev (dropWhile is_space s)))"

definition digit_chars :: "char list" where
  "digit_chars = ''0123456789''"

fun find_index_from :: "nat \<Rightarrow> char \<Rightarrow> char list \<Rightarrow> nat option" where
  "find_index_from i c [] = None"
| "find_index_from i c (d # ds) = (if c = d then Some i else find_index_from (Suc i) c ds)"

definition digit_val :: "char \<Rightarrow> nat option" where
  "digit_val c = find_index_from 0 c digit_chars"

fun parse_digits :: "bool \<Rightarrow> nat \<Rightarrow> string \<Rightarrow> nat option" where
  "parse_digits prev acc [] = (if prev then Some acc else None)"
| "parse_digits prev acc (c # cs) =
     (case digit_val c of
        Some d \<Rightarrow> parse_digits True (10 * acc + d) cs
      | None \<Rightarrow>
          (if c = CHR ''_'' \<and> prev \<and> cs \<noteq> [] then parse_digits False acc cs else None))"

definition py_int :: "string \<Rightarrow> int option" where
  "py_int s =
     (case strip s of
        [] \<Rightarrow> None
      | c # cs \<Rightarrow>
          (if c = CHR ''-'' then map_option (\<lambda>n. - int n) (parse_digits False 0 cs)
           else if c = CHR ''+'' then map_option int (parse_digits False 0 cs)
           else map_option int (parse_digits False 0 (c # cs))))"

fun digits_of :: "nat \<Rightarrow> nat \<Rightarrow> string" where
  "digits_of 0 n = []"
| "digits_of (Suc fuel) n =
     (if n < 10 then [digit_chars ! n]
      else digits_of fuel (n div 10) @ [digit_chars ! (n mod 10)])"

definition py_str :: "int \<Rightarrow> string" where
  "py_str i =
     (if i < 0 then CHR ''-'' # digits_of (Suc (nat (- i))) (nat (- i))
      else digits_of (Suc (nat i)) (nat i))"

section \<open>The chatgpt variant (src/chatgpt.py)\<close>

subsection \<open>Configuration constants\<close>

definition WIDTH :: int where "WIDTH = 600"
definition HEIGHT :: int where "HEIGHT = 800"
definition SHAPE_FALL_SPEED :: rat where "SHAPE_FALL_SPEED = 3"
definition SPEED_INCREMENT_INTERVAL :: int where "SPEED_INCREMENT_INTERVAL = 5"
definition SPEED_INCREMENT_AMOUNT :: rat where "SPEED_INCREMENT_AMOUNT = 1 / 2"
definition NUM_LIVES :: int where "NUM_LIVES = 3"
definition COLOUR_LIST :: "colour list" where "COLOUR_LIST = [RED, GREEN, BLUE]"
definition ZONE_WIDTH :: int where "ZONE_WIDTH = 100"
definition ZONE_HEIGHT :: int where "ZONE_HEIGHT = 50"
definition BOTTOM_MARGIN :: int where "BOTTOM_MARGIN = 50"
definition SHAPE_SPAWN_INTERVAL :: int where "SHAPE_SPAWN_INTERVAL = 1000"

datatype game_phase = STATE_TITLE | STATE_PLAYING | STATE_GAMEOVER

subsection \<open>load_high_score and save_high_score\<close>

definition load_high_score :: "string option \<Rightarrow> int" where
  "load_high_score store =
     (case store of
        None \<Rightarrow> 0
      | Some content \<Rightarrow> (case py_int (strip content) of Some v \<Rightarrow> v | None \<Rightarrow> 0))"

definition save_high_score :: "int \<Rightarrow> string option" where
  "save_high_score sc = Some (py_str sc)"

subsection \<open>CollectorZones\<close>

record CollectorZones =
  index :: int
  zones_x :: int
  zones_y :: int
  colours :: "colour list"

definition new_CollectorZones :: CollectorZones where
  "new_CollectorZones =
     \<lparr> index = 0, zones_x = WIDTH div 2 - ZONE_WIDTH, zones_y = HEIGHT - BOTTOM_MARGIN,
       colours = COLOUR_LIST \<rparr>"

definition move_left :: "CollectorZones \<Rightarrow> CollectorZones" where
  "move_left c = c\<lparr> index := (index c - 1) mod 3 \<rparr>"

definition move_right :: "CollectorZones \<Rightarrow> CollectorZones" where
  "move_right c = c\<lparr> index := (index c + 1) mod 3 \<rparr>"

text \<open>
  \<^verbatim>\<open>self.colours\<close> always holds its three colours, so the index
  \<^verbatim>\<open>(self.index + 1) % 3\<close> is in range.
\<close>

definition get_centre_colour :: "CollectorZones \<Rightarrow> colour" where
  "get_centre_colour c = colours c ! nat ((index c + 1) mod 3)"

subsection \<open>FallingShape\<close>

text \<open>
  \<open>oid\<close> is the identity of the Python object: the class defines no \<^verbatim>\<open>__eq__\<close>,
  so \<^verbatim>\<open>shape in shapes\<close> and \<^verbatim>\<open>shapes.remove(shape)\<close> compare by identity.
  The vertical position and the speed are Python numbers that start as integers and turn
  into floats after the first speed increment of 0.5; every value they take is a multiple
  of one half, which a float holds exactly, so they are rationals here. The attributes
  \<^verbatim>\<open>x\<close>, \<^verbatim>\<open>y\<close> and \<^verbatim>\<open>size\<close> are the fields \<open>pos_x\<close>, \<open>pos_y\<close> and
  \<open>radius\<close>.
\<close>

record FallingShape =
  oid :: nat
  colour :: colour
  shape_type :: shape_kind
  pos_x :: int
  pos_y :: rat
  speed :: rat
  radius :: int

definition new_FallingShape :: "nat \<Rightarrow> colour \<Rightarrow> shape_kind \<Rightarrow> int \<Rightarrow> rat \<Rightarrow> FallingShape" where
  "new_FallingShape i rnd_colour rnd_kind rnd_x fall_speed =
     \<lparr> oid = i, colour = rnd_colour, shape_type = rnd_kind, pos_x = rnd_x,
       pos_y = - 50, speed = fall_speed, radius = 30 \<rparr>"

definition update :: "FallingShape \<Rightarrow> FallingShape" where
  "update sh = sh\<lparr> pos_y := pos_y sh + speed sh \<rparr>"

definition is_off_screen :: "FallingShape \<Rightarrow> bool" where
  "is_off_screen sh = (pos_y sh - of_int (radius sh) > of_int HEIGHT)"

subsection \<open>The session state and one iteration of the main loop\<close>

record session =
  running :: bool
  high_score :: int
  game_state :: game_phase
  collector :: CollectorZones
  shapes :: "FallingShape list"
  score :: int
  lives :: int
  current_fall_speed :: rat
  last_spawn_time :: int
  store :: "string option"
  sounds :: "notification list"
  next_oid :: nat

text \<open>
  One frame's inputs: the queued events, the value \<^verbatim>\<open>pygame.time.get_ticks()\<close>
  returns if the event handler resets the session, the value it returns in the update
  section, and the three random draws of a \<^verbatim>\<open>FallingShape\<close> constructed in this
  frame.
\<close>

record frame =
  events :: "event list"
  ticks_at_reset :: int
  ticks_at_update :: int
  rnd_colour :: colour
  rnd_kind :: shape_kind
  rnd_x :: int

definition main_init :: "string option \<Rightarrow> int \<Rightarrow> session" where
  "main_init file t0 =
     \<lparr> running = True, high_score = load_high_score file, game_state = STATE_TITLE,
       collector = new_CollectorZones, shapes = [], score = 0, lives = NUM_LIVES,
       current_fall_speed = SHAPE_FALL_SPEED, last_spawn_time = t0, store = file,
       sounds = [], next_oid = 0 \<rparr>"

fun handle_event :: "int \<Rightarrow> session \<Rightarrow> event \<Rightarrow> session" where
  "handle_event t s QUIT = s\<lparr> running := False \<rparr>"
| "handle_event t s OTHER_EVENT = s"
| "handle_event t s (KEYDOWN k) =
     (if game_state s = STATE_TITLE then
        s\<lparr> game_state := STATE_PLAYING, score := 0, lives := NUM_LIVES, shapes := [],
           collector := new_CollectorZones, current_fall_speed := SHAPE_FALL_SPEED,
           last_spawn_time := t \<rparr>
      else if game_state s = STATE_PLAYING then
        (if k = K_LEFT then s\<lparr> collector := move_left (collector s) \<rparr>
         else if k = K_RIGHT then s\<lparr> collector := move_right (collector s) \<rparr>
         else s)
      else
        (if k = K_SPACE then s\<lparr> game_state := STATE_TITLE \<rparr> else s))"

definition handle_events :: "frame \<Rightarrow> session \<Rightarrow> session" where
  "handle_events f s = foldl (handle_event (ticks_at_reset f)) s (events f)"

definition spawn :: "frame \<Rightarrow> session \<Rightarrow> session" where
  "spawn f s =
     (if ticks_at_update f - last_spawn_time s > SHAPE_SPAWN_INTERVAL then
        s\<lparr> shapes := shapes s @
              [new_FallingShape (next_oid s) (rnd_colour f) (rnd_kind f) (rnd_x f)
                 (current_fall_speed s)],
           last_spawn_time := ticks_at_update f,
           next_oid := Suc (next_oid s) \<rparr>
      else s)"

definition update_shapes :: "session \<Rightarrow> session" where
  "update_shapes s = s\<lparr> shapes := map update (shapes s) \<rparr>"

text \<open>
  The collision loop (lines 286 to 316). \<open>at_zone_row\<close> is its first test,
  \<^verbatim>\<open>shape.y + shape.size >= collector.y\<close>. The loop reads and writes
  \<^verbatim>\<open>score\<close>, \<^verbatim>\<open>lives\<close> and \<^verbatim>\<open>current_fall_speed\<close>, and
  collects the resolved shapes in \<^verbatim>\<open>to_remove\<close>, which is the second component
  here.
\<close>

definition at_zone_row :: "CollectorZones \<Rightarrow> FallingShape \<Rightarrow> bool" where
  "at_zone_row c sh = (pos_y sh + of_int (radius sh) \<ge> of_int (zones_y c))"

definition check_shape :: "session \<times> FallingShape list \<Rightarrow> FallingShape \<Rightarrow> session \<times> FallingShape list" where
  "check_shape acc sh =
     (let s = fst acc; to_remove = snd acc in
      if at_zone_row (collector s) sh then
        (if colour sh = get_centre_colour (collector s) then
           (let s1 = s\<lparr> score := score s + 1, sounds := sounds s @ [OnMatch] \<rparr>;
                s2 = (if score s1 mod SPEED_INCREMENT_INTERVAL = 0
                      then s1\<lparr> current_fall_speed := current_fall_speed s1 + SPEED_INCREMENT_AMOUNT \<rparr>
                      else s1)
            in (s2, to_remove @ [sh]))
         else
           (s\<lparr> lives := lives s - 1, sounds := sounds s @ [OnMiss] \<rparr>, to_remove @ [sh]))
      else if is_off_screen sh then
        (s\<lparr> lives := lives s - 1, sounds := sounds s @ [OnMiss] \<rparr>, to_remove @ [sh])
      else (s, to_remove))"

definition check_shapes :: "session \<Rightarrow> session \<times> FallingShape list" where
  "check_shapes s = foldl check_shape (s, []) (shapes s)"

text \<open>
  The removal loop (lines 319 to 321):
  \<^verbatim>\<open>if shape in shapes: shapes.remove(shape)\<close>, both by object identity.
\<close>

fun remove_obj :: "FallingShape \<Rightarrow> FallingShape list \<Rightarrow> FallingShape list" where
  "remove_obj sh [] = []"
| "remove_obj sh (a # as) = (if oid a = oid sh then as else a # remove_obj sh as)"

definition remove_shapes :: "FallingShape list \<Rightarrow> FallingShape list \<Rightarrow> FallingShape list" where
  "remove_shapes to_remove live = foldl (\<lambda>l sh. remove_obj sh l) live to_remove"

definition check_game_over :: "session \<Rightarrow> session" where
  "check_game_over s =
     (if lives s \<le> 0 then
        (let s1 = (if score s > high_score s
                   then s\<lparr> high_score := score s, store := save_high_score (score s) \<rparr>
                   else s)
         in s1\<lparr> sounds := sounds s1 @ [OnGameOver], game_state := STATE_GAMEOVER \<rparr>)
      else s)"

definition update_logic :: "frame \<Rightarrow> session \<Rightarrow> session" where
  "update_logic f s =
     (if game_state s = STATE_PLAYING then
        (let s1 = update_shapes (spawn f s);
             r = check_shapes s1;
             s2 = (fst r)\<lparr> shapes := remove_shapes (snd r) (shapes (fst r)) \<rparr>
         in check_game_over s2)
      else s)"

definition tick :: "frame \<Rightarrow> session \<Rightarrow> session" where
  "tick f s = update_logic f (handle_events f s)"

text \<open>
  The \<^verbatim>\<open>while running\<close> loop over a finite run of frames: the frame that sees
  \<^verbatim>\<open>QUIT\<close> still completes, later frames are not executed.
\<close>

fun run :: "session \<Rightarrow> frame list \<Rightarrow> session" where
  "run s [] = s"
| "run s (f # fs) = (if running s then run (tick f s) fs else s)"

section \<open>The gemini variant (src/gemini.py)\<close>

subsection \<open>Constants, rectangles, zones and shapes\<close>

definition screen_width :: int where "screen_width = 600"
definition screen_height :: int where "screen_height = 800"
definition zone_colors :: "colour list" where "zone_colors = [RED, GREEN, BLUE]"
definition shape_colors :: "colour list" where "shape_colors = zone_colors"
definition speed_increase_interval :: int where "speed_increase_interval = 20"
definition zone_width :: int where "zone_width = screen_width div 3"
definition zone_height :: int where "zone_height = 50"
definition shape_size :: int where "shape_size = 40"

text \<open>
  \<^verbatim>\<open>pygame.Rect(left, top, width, height)\<close> with integer fields.
  \<open>colliderect\<close> is pygame's overlap test for rectangles of positive width and
  height, which all rectangles of this program are: the interiors overlap, touching edges
  do not count.
\<close>

record Rect =
  left :: int
  top :: int
  width :: int
  height :: int

definition colliderect :: "Rect \<Rightarrow> Rect \<Rightarrow> bool" where
  "colliderect a b =
     (left a < left b + width b \<and> left b < left a + width a \<and>
      top a < top b + height b \<and> top b < top a + height a)"

text \<open>
  A zone is the dictionary \<^verbatim>\<open>{"color": .., "rect": ..}\<close>, a shape the
  dictionary \<^verbatim>\<open>{"type": .., "color": .., "rect": ..}\<close>. \<open>sh_id\<close> is the
  identity of the shape object (needed where the loop writes to the object it is
  visiting); \<^verbatim>\<open>shapes.remove(shape)\<close> compares dictionaries by value, which is
  \<open>same_value\<close>.
\<close>

record zone =
  zone_color :: colour
  zone_rect :: Rect

record shape =
  sh_id :: nat
  sh_type :: shape_kind
  sh_color :: colour
  sh_rect :: Rect

definition same_value :: "shape \<Rightarrow> shape \<Rightarrow> bool" where
  "same_value a b = (sh_type a = sh_type b \<and> sh_color a = sh_color b \<and> sh_rect a = sh_rect b)"

text \<open>
  \<^verbatim>\<open>shapes.remove(shape)\<close>: the first element equal to the argument goes.
  Python raises \<^verbatim>\<open>ValueError\<close> when there is none; the loop only removes the
  shape it is visiting, which is still in the list (lemma \<open>collide_loop_suffix\<close> below),
  so that case is not a branch of the loop.
\<close>

fun remove_eq :: "shape \<Rightarrow> shape list \<Rightarrow> shape list" where
  "remove_eq v [] = []"
| "remove_eq v (a # as) = (if same_value a v then as else a # remove_eq v as)"

definition set_top :: "nat \<Rightarrow> int \<Rightarrow> shape list \<Rightarrow> shape list" where
  "set_top i v l = map (\<lambda>a. if sh_id a = i then a\<lparr> sh_rect := (sh_rect a)\<lparr> top := v \<rparr> \<rparr> else a) l"

subsection \<open>load_high_score and save_high_score\<close>

definition load_high_score_g :: "string option \<Rightarrow> py_error + int" where
  "load_high_score_g file =
     (case file of
        None \<Rightarrow> Inr 0
      | Some content \<Rightarrow> (case py_int content of Some v \<Rightarrow> Inr v | None \<Rightarrow> Inl ValueError))"

definition save_high_score_g :: "int \<Rightarrow> string option" where
  "save_high_score_g sc = Some (py_str sc)"

subsection \<open>The state of game_loop and one iteration of its loop\<close>

record game =
  game_over :: bool
  score_g :: int
  high_score_g :: int
  lives_g :: int
  shape_speed :: int
  zones :: "zone list"
  zone_position :: int
  shapes_g :: "shape list"
  last_shape_time :: rat
  shape_spawn_delay :: rat
  store_g :: "string option"
  sounds_g :: "notification list"
  next_id :: nat

text \<open>
  One iteration's inputs: the queued events, the value of \<^verbatim>\<open>time.time()\<close>
  and the random draws of a shape spawned in this iteration. The clock and the spawn delay
  are floats in the source and rationals here; they only decide whether a shape is spawned.
\<close>

record frame_g =
  events_g :: "event list"
  time_now :: rat
  rnd_type_g :: shape_kind
  rnd_color_g :: colour
  rnd_x_g :: int

definition initial_zones :: "zone list" where
  "initial_zones =
     [ \<lparr> zone_color = zone_colors ! 0,
         zone_rect = \<lparr> left = 0, top = screen_height - zone_height, width = zone_width, height = zone_height \<rparr> \<rparr>,
       \<lparr> zone_color = zone_colors ! 1,
         zone_rect = \<lparr> left = zone_width, top = screen_height - zone_height, width = zone_width, height = zone_height \<rparr> \<rparr>,
       \<lparr> zone_color = zone_colors ! 2,
         zone_rect = \<lparr> left = zone_width * 2, top = screen_height - zone_height, width = zone_width, height = zone_height \<rparr> \<rparr> ]"

text \<open>
  The variables of \<^verbatim>\<open>game_loop\<close> before its loop (lines 159 to 183), given the
  loaded high score; \<open>game_loop_init\<close> adds the call of \<^verbatim>\<open>load_high_score\<close>,
  whose exception ends the program.
\<close>

definition game_variables :: "string option \<Rightarrow> int \<Rightarrow> rat \<Rightarrow> game" where
  "game_variables file hs t0 =
     \<lparr> game_over = False, score_g = 0, high_score_g = hs, lives_g = 3, shape_speed = 5,
       zones = initial_zones, zone_position = 1, shapes_g = [], last_shape_time = t0,
       shape_spawn_delay = 3 / 2, store_g = file, sounds_g = [], next_id = 0 \<rparr>"

definition game_loop_init :: "string option \<Rightarrow> rat \<Rightarrow> py_error + game" where
  "game_loop_init file t0 =
     (case load_high_score_g file of
        Inl e \<Rightarrow> Inl e
      | Inr hs \<Rightarrow> Inr (game_variables file hs t0))"

fun handle_event_g :: "game \<Rightarrow> event \<Rightarrow> game" where
  "handle_event_g g QUIT = g\<lparr> game_over := True \<rparr>"
| "handle_event_g g OTHER_EVENT = g"
| "handle_event_g g (KEYDOWN k) =
     (if k = K_LEFT then g\<lparr> zone_position := max 0 (zone_position g - 1) \<rparr>
      else if k = K_RIGHT then
        g\<lparr> zone_position := min (int (length (zones g)) - 1) (zone_position g + 1) \<rparr>
      else g)"

definition handle_events_g :: "frame_g \<Rightarrow> game \<Rightarrow> game" where
  "handle_events_g f g = foldl handle_event_g g (events_g f)"

definition move_zones :: "game \<Rightarrow> game" where
  "move_zones g =
     g\<lparr> zones := map (\<lambda>(i, z). z\<lparr> zone_rect := (zone_rect z)\<lparr> left := (zone_position g - 1 + int i) * zone_width \<rparr> \<rparr>)
                     (enumerate 0 (zones g)) \<rparr>"

definition spawn_g :: "frame_g \<Rightarrow> game \<Rightarrow> game" where
  "spawn_g f g =
     (if time_now f - last_shape_time g > shape_spawn_delay g then
        g\<lparr> shapes_g := shapes_g g @
              [\<lparr> sh_id = next_id g, sh_type = rnd_type_g f, sh_color = rnd_color_g f,
                 sh_rect = \<lparr> left = rnd_x_g f, top = 0 - shape_size, width = shape_size, height = shape_size \<rparr> \<rparr>],
           last_shape_time := time_now f,
           next_id := Suc (next_id g) \<rparr>
      else g)"

definition move_shape :: "int \<Rightarrow> shape \<Rightarrow> shape" where
  "move_shape v sh = sh\<lparr> sh_rect := (sh_rect sh)\<lparr> top := top (sh_rect sh) + v \<rparr> \<rparr>"

definition move_shapes :: "game \<Rightarrow> game" where
  "move_shapes g = g\<lparr> shapes_g := map (move_shape (shape_speed g)) (shapes_g g) \<rparr>"

text \<open>
  \<open>lose_life\<close> is the statement group that the loop contains twice (lines 226 to 230
  and 246 to 250): one life less, the wrong-match sound, and at exactly zero lives the
  game-over sound and the flag that ends the loop.
\<close>

definition lose_life :: "game \<Rightarrow> game" where
  "lose_life g =
     (let g1 = g\<lparr> lives_g := lives_g g - 1, sounds_g := sounds_g g @ [OnMiss] \<rparr>
      in if lives_g g1 = 0 then g1\<lparr> sounds_g := sounds_g g1 @ [OnGameOver], game_over := True \<rparr>
         else g1)"

definition off_screen_g :: "shape \<Rightarrow> bool" where
  "off_screen_g sh = (top (sh_rect sh) > screen_height)"

definition hit_zone :: "game \<Rightarrow> shape \<Rightarrow> zone option" where
  "hit_zone g sh = find (\<lambda>z. colliderect (sh_rect sh) (zone_rect z)) (zones g)"

definition score_point :: "game \<Rightarrow> game" where
  "score_point g =
     (let g1 = g\<lparr> score_g := score_g g + 1, sounds_g := sounds_g g @ [OnMatch] \<rparr>;
          g2 = (if score_g g1 > high_score_g g1 then g1\<lparr> high_score_g := score_g g1 \<rparr> else g1)
      in if score_g g2 mod speed_increase_interval = 0
         then g2\<lparr> shape_speed := shape_speed g2 + 1,
                  shape_spawn_delay := max (1 / 2) (shape_spawn_delay g2 - 1 / 10) \<rparr>
         else g2)"

text \<open>
  The body of \<^verbatim>\<open>for shape in shapes[:]\<close> (lines 224 to 253) for one visited
  shape. The inner \<^verbatim>\<open>for zone in zones\<close> with its \<^verbatim>\<open>break\<close> acts on
  the first zone whose rectangle the shape's rectangle overlaps (\<open>hit_zone\<close>).
\<close>

definition collide_shape :: "game \<Rightarrow> shape \<Rightarrow> game" where
  "collide_shape g sh =
     (if off_screen_g sh then
        lose_life (g\<lparr> shapes_g := remove_eq sh (shapes_g g) \<rparr>)
      else
        (case hit_zone g sh of
           None \<Rightarrow> g
         | Some z \<Rightarrow>
             (if sh_color sh = zone_color z then
                (let g1 = score_point g;
                     sh1 = sh\<lparr> sh_rect := (sh_rect sh)\<lparr> top := screen_height \<rparr> \<rparr>;
                     g2 = g1\<lparr> shapes_g := set_top (sh_id sh) screen_height (shapes_g g1) \<rparr>
                 in g2\<lparr> shapes_g := remove_eq sh1 (shapes_g g2) \<rparr>)
              else
                (let g1 = lose_life g in g1\<lparr> shapes_g := remove_eq sh (shapes_g g1) \<rparr>))))"

definition collide_loop :: "game \<Rightarrow> game" where
  "collide_loop g = foldl collide_shape g (shapes_g g)"

definition tick_g :: "frame_g \<Rightarrow> game \<Rightarrow> game" where
  "tick_g f g = collide_loop (move_shapes (spawn_g f (move_zones (handle_events_g f g))))"

text \<open>
  \<^verbatim>\<open>while not game_over\<close> over a finite run of iterations, and the statement
  after the loop, \<^verbatim>\<open>save_high_score(high_score)\<close>. The game-over screen that
  follows is display and input only.
\<close>

fun run_g :: "game \<Rightarrow> frame_g list \<Rightarrow> game" where
  "run_g g [] = g"
| "run_g g (f # fs) = (if game_over g then g else run_g (tick_g f g) fs)"

definition game_over_sequence :: "game \<Rightarrow> game" where
  "game_over_sequence g = g\<lparr> store_g := save_high_score_g (high_score_g g) \<rparr>"

definition game_loop :: "string option \<Rightarrow> rat \<Rightarrow> frame_g list \<Rightarrow> py_error + game" where
  "game_loop file t0 fs =
     (case game_loop_init file t0 of
        Inl e \<Rightarrow> Inl e
      | Inr g0 \<Rightarrow>
          (let g = run_g g0 fs in if game_over g then Inr (game_over_sequence g) else Inr g))"

section \<open>Vocabulary of the statements\<close>

text \<open>
  chatgpt.py: a shape is \<open>matched\<close> when the first branch of the collision loop scores
  it, \<open>resolved\<close> when either branch of the loop takes it, and \<open>notice\<close> is the sound
  the loop plays for a resolved shape. \<open>moved\<close> is the live list as the collision loop
  finds it: after the spawn and after every shape has been updated. \<open>oids_ok\<close> says that
  the objects in the live list are pairwise different and older than the next object to
  be created, which holds in every state that a run of frames reaches from the start of
  the program (lemma \<open>oids_ok_run\<close>). \<open>play\<close> runs frames for as long as the session
  is in the playing state.
\<close>

definition matched :: "CollectorZones \<Rightarrow> FallingShape \<Rightarrow> bool" where
  "matched c sh = (at_zone_row c sh \<and> colour sh = get_centre_colour c)"

definition resolved :: "CollectorZones \<Rightarrow> FallingShape \<Rightarrow> bool" where
  "resolved c sh = (at_zone_row c sh \<or> is_off_screen sh)"

definition notice :: "CollectorZones \<Rightarrow> FallingShape \<Rightarrow> notification" where
  "notice c sh = (if matched c sh then OnMatch else OnMiss)"

definition moved :: "frame \<Rightarrow> session \<Rightarrow> FallingShape list" where
  "moved f s = shapes (update_shapes (spawn f s))"

definition oids_ok :: "session \<Rightarrow> bool" where
  "oids_ok s = (distinct (map oid (shapes s)) \<and> list_all (\<lambda>sh. oid sh < next_oid s) (shapes s))"

fun play :: "session \<Rightarrow> frame list \<Rightarrow> session" where
  "play s [] = s"
| "play s (f # fs) = (if game_state s = STATE_PLAYING \<and> running s then play (tick f s) fs else s)"

text \<open>
  \<open>after_checks\<close> is the update section of a playing frame up to, and without, the
  game-over check: spawn, update, collision loop, removal loop.
\<close>

definition after_checks :: "frame \<Rightarrow> session \<Rightarrow> session" where
  "after_checks f s =
     (let s1 = update_shapes (spawn f s); r = check_shapes s1
      in (fst r)\<lparr> shapes := remove_shapes (snd r) (shapes (fst r)) \<rparr>)"

text \<open>
  gemini.py: a shape is \<open>matched_g\<close> when the collision loop scores it, that is when it
  is not off-screen and has the colour of the first zone its rectangle overlaps, and
  \<open>missed_g\<close> when the loop takes a life for it, that is when it is off-screen or has
  another colour than the first zone its rectangle overlaps; \<open>moved_g\<close> is the state
  as the collision loop finds it.
\<close>

definition matched_g :: "game \<Rightarrow> shape \<Rightarrow> bool" where
  "matched_g g sh =
     (\<not> off_screen_g sh \<and>
      (case hit_zone g sh of None \<Rightarrow> False | Some z \<Rightarrow> sh_color sh = zone_color z))"

definition missed_g :: "game \<Rightarrow> shape \<Rightarrow> bool" where
  "missed_g g sh =
     (off_screen_g sh \<or>
      (case hit_zone g sh of None \<Rightarrow> False | Some z \<Rightarrow> sh_color sh \<noteq> zone_color z))"

definition moved_g :: "frame_g \<Rightarrow> game \<Rightarrow> game" where
  "moved_g f g = move_shapes (spawn_g f (move_zones (handle_events_g f g)))"

text \<open>
  Two invariants of the gemini loop: \<open>lives_ok\<close> says that the lives never exceed
  the initial three and that the loop flag is set once they are used up; \<open>high_ok hs\<close>
  says that the high-score variable is the larger of the loaded value \<open>hs\<close> and the
  score.
\<close>

definition lives_ok :: "game \<Rightarrow> bool" where
  "lives_ok g = (lives_g g \<le> 3 \<and> (lives_g g \<le> 0 \<longrightarrow> game_over g))"

definition high_ok :: "int \<Rightarrow> game \<Rightarrow> bool" where
  "high_ok hs g = (0 \<le> score_g g \<and> high_score_g g = max hs (score_g g))"

section \<open>Concrete runs used by the examples below\<close>

definition keys_g :: "key list \<Rightarrow> rat \<Rightarrow> colour \<Rightarrow> int \<Rightarrow> frame_g" where
  "keys_g ks t c x =
     \<lparr> events_g = map KEYDOWN ks, time_now = t, rnd_type_g = Square, rnd_color_g = c, rnd_x_g = x \<rparr>"

definition zone_row :: "game \<Rightarrow> (colour \<times> int) list" where
  "zone_row g = map (\<lambda>z. (zone_color z, left (zone_rect z))) (zones g)"

definition game_start :: game where
  "game_start = game_variables None 0 0"

definition shape_at_spawn :: FallingShape where
  "shape_at_spawn = new_FallingShape 0 RED Circle 300 SHAPE_FALL_SPEED"

text \<open>
  A gemini run in which four red shapes are spawned at x = 500 in the first four
  iterations while the zone row is shifted to its left end (so that no zone lies under
  them), and fall for 150 more iterations; in the last iteration the zone row is shifted
  back to the right.
\<close>

definition crowded_prefix :: "frame_g list" where
  "crowded_prefix =
     [keys_g [K_LEFT] 2 RED 500, keys_g [] 4 RED 500, keys_g [] 6 RED 500, keys_g [] 8 RED 500]
     @ replicate 150 (keys_g [] 8 RED 500)"

definition crowded_last :: frame_g where
  "crowded_last = keys_g [K_RIGHT] 8 RED 500"

text \<open>
  A playing chatgpt session in which a green and a red shape are one update away from the
  zone row (the centre colour of a new collector is green) and a third shape is far above
  it; a frame without events in which no shape is spawned; a gemini state with the zone
  row at its left end and a shape at the height of the zone row to the right of all zones.
\<close>

definition arrivals :: session where
  "arrivals =
     (handle_event 0 (main_init None 0) (KEYDOWN K_SPACE))
       \<lparr> shapes := [ (new_FallingShape 0 GREEN Circle 300 3)\<lparr> pos_y := 717 \<rparr>,
                     (new_FallingShape 1 RED Square 200 3)\<lparr> pos_y := 717 \<rparr>,
                     (new_FallingShape 2 GREEN Triangle 100 3)\<lparr> pos_y := 100 \<rparr> ],
         next_oid := 3 \<rparr>"

definition quiet_frame :: frame where
  "quiet_frame = \<lparr> events = [], ticks_at_reset = 0, ticks_at_update = 0, rnd_colour = RED,
                   rnd_kind = Circle, rnd_x = 300 \<rparr>"



text \<open>
  The state that the run \<open>crowded_prefix\<close> reaches, and the state in which
  \<^verbatim>\<open>game_loop\<close> ends when \<open>crowded_last\<close> follows.
\<close>

definition red_square :: "nat \<Rightarrow> int \<Rightarrow> shape" where
  "red_square i y =
     \<lparr> sh_id = i, sh_type = Square, sh_color = RED,
       sh_rect = \<lparr> left = 500, top = y, width = 40, height = 40 \<rparr> \<rparr>"

definition crowded_state :: game where
  "crowded_state =
     \<lparr> game_over = False, score_g = 0, high_score_g = 0, lives_g = 3, shape_speed = 5,
       zones =
         [ \<lparr> zone_color = RED, zone_rect = \<lparr> left = - 200, top = 750, width = 200, height = 50 \<rparr> \<rparr>,
           \<lparr> zone_color = GREEN, zone_rect = \<lparr> left = 0, top = 750, width = 200, height = 50 \<rparr> \<rparr>,
           \<lparr> zone_color = BLUE, zone_rect = \<lparr> left = 200, top = 750, width = 200, height = 50 \<rparr> \<rparr> ],
       zone_position = 0,
       shapes_g = [red_square 0 730, red_square 1 725, red_square 2 720, red_square 3 715],
       last_shape_time = 8, shape_spawn_delay = 3 / 2, store_g = None, sounds_g = [],
       next_id = 4 \<rparr>"

definition crowded_final :: game where
  "crowded_final =
     \<lparr> game_over = True, score_g = 0, high_score_g = 0, lives_g = - 1, shape_speed = 5,
       zones =
         [ \<lparr> zone_color = RED, zone_rect = \<lparr> left = 0, top = 750, width = 200, height = 50 \<rparr> \<rparr>,
           \<lparr> zone_color = GREEN, zone_rect = \<lparr> left = 200, top = 750, width = 200, height = 50 \<rparr> \<rparr>,
           \<lparr> zone_color = BLUE, zone_rect = \<lparr> left = 400, top = 750, width = 200, height = 50 \<rparr> \<rparr> ],
       zone_position = 1, shapes_g = [], last_shape_time = 8, shape_spawn_delay = 3 / 2,
       store_g = Some ''0'', sounds_g = [OnMiss, OnMiss, OnMiss, OnGameOver, OnMiss],
       next_id = 4 \<rparr>"



text \<open>
  A gemini run that reaches a speed increase: twenty green shapes are spawned at x = 250,
  over the green middle zone, in the first twenty iterations, and a red shape ten
  iterations later; after 169 iterations nineteen of the green shapes have been matched
  and the run is in \<open>twenty_state\<close>. \<open>shape_tops\<close> lists the live shapes of a state
  with their vertical positions.
\<close>

fun spawn_each :: "nat \<Rightarrow> rat \<Rightarrow> frame_g list" where
  "spawn_each 0 t = []"
| "spawn_each (Suc n) t = keys_g [] (t + 2) GREEN 250 # spawn_each n (t + 2)"

definition twenty_prefix :: "frame_g list" where
  "twenty_prefix =
     spawn_each 20 0 @ replicate 9 (keys_g [] 40 GREEN 250) @ [keys_g [] 42 RED 250]
     @ replicate 139 (keys_g [] 42 RED 250)"

definition twenty_state :: game where
  "twenty_state =
     \<lparr> game_over = False, score_g = 19, high_score_g = 19, lives_g = 3, shape_speed = 5,
       zones = initial_zones, zone_position = 1,
       shapes_g =
         [ \<lparr> sh_id = 19, sh_type = Square, sh_color = GREEN,
             sh_rect = \<lparr> left = 250, top = 710, width = 40, height = 40 \<rparr> \<rparr>,
           \<lparr> sh_id = 20, sh_type = Square, sh_color = RED,
             sh_rect = \<lparr> left = 250, top = 660, width = 40, height = 40 \<rparr> \<rparr> ],
       last_shape_time = 42, shape_spawn_delay = 3 / 2, store_g = None,
       sounds_g = replicate 19 OnMatch, next_id = 21 \<rparr>"

definition shape_tops :: "game \<Rightarrow> (nat \<times> int) list" where
  "shape_tops g = map (\<lambda>sh. (sh_id sh, top (sh_rect sh))) (shapes_g g)"

text \<open>
  \<open>session_ok\<close> is the invariant of the chatgpt state machine: never more lives than
  at the start, at least one life while playing, none left in the game-over state.
  \<open>ends_session\<close> says that the frame is one in which the session goes from playing to
  game over: its update section runs in the playing state and leaves no life.
  \<open>start_frame\<close> carries one key press; \<open>last_life\<close> is the session \<open>arrivals\<close>
  with one life left and eight points.
\<close>

definition session_ok :: "session \<Rightarrow> bool" where
  "session_ok s =
     (lives s \<le> NUM_LIVES \<and> (game_state s = STATE_PLAYING \<longrightarrow> 0 < lives s) \<and>
      (game_state s = STATE_GAMEOVER \<longrightarrow> lives s \<le> 0))"

definition ends_session :: "frame \<Rightarrow> session \<Rightarrow> bool" where
  "ends_session f s = (game_state (handle_events f s) = STATE_PLAYING \<and> lives (tick f s) \<le> 0)"

definition start_frame :: frame where
  "start_frame = quiet_frame\<lparr> events := [KEYDOWN K_SPACE] \<rparr>"

definition last_life :: session where
  "last_life = arrivals\<lparr> lives := 1, score := 8 \<rparr>"

text \<open>
  \<open>ids_ok\<close> is \<open>oids_ok\<close> for gemini.py. \<open>visits_present g xs\<close> says that, when the
  collision loop visits the shapes \<open>xs\<close> in turn from the state \<open>g\<close>, each of them is
  in the live list at the moment it is visited, so that \<^verbatim>\<open>shapes.remove(shape)\<close>
  finds it.
\<close>

definition ids_ok :: "game \<Rightarrow> bool" where
  "ids_ok g = (distinct (map sh_id (shapes_g g)) \<and> list_all (\<lambda>sh. sh_id sh < next_id g) (shapes_g g))"

fun visits_present :: "game \<Rightarrow> shape list \<Rightarrow> bool" where
  "visits_present g [] = True"
| "visits_present g (x # xs) = (x \<in> set (shapes_g g) \<and> visits_present (collide_shape g x) xs)"

text \<open>
  \<open>misses\<close> counts the miss sounds in a log. A gemini run in which one red shape is
  spawned at x = 50, over the red left zone, and falls for 150 iterations, with the
  state it reaches.
\<close>

definition misses :: "notification list \<Rightarrow> nat" where
  "misses ns = length (filter (\<lambda>n. n = OnMiss) ns)"

definition left_run :: "frame_g list" where
  "left_run = replicate 150 (keys_g [] 2 RED 50)"

definition left_state :: game where
  "left_state =
     \<lparr> game_over = False, score_g = 0, high_score_g = 0, lives_g = 3, shape_speed = 5,
       zones = initial_zones, zone_position = 1,
       shapes_g =
         [ \<lparr> sh_id = 0, sh_type = Square, sh_color = RED,
             sh_rect = \<lparr> left = 50, top = 710, width = 40, height = 40 \<rparr> \<rparr> ],
       last_shape_time = 2, shape_spawn_delay = 3 / 2, store_g = None, sounds_g = [],
       next_id = 1 \<rparr>"

text \<open>
  A chatgpt run from the start of the program: the first frame carries the key press
  that starts the session and spawns a red shape, 255 frames follow in which nothing is
  spawned; the state after the first frame and the state at the end of the run.
  \<open>shipped\<close> says that the zone row is not below the screen and that no live shape has
  a negative size.
\<close>

definition first_frame :: frame where
  "first_frame = \<lparr> events = [KEYDOWN K_SPACE], ticks_at_reset = 0, ticks_at_update = 1001,
                   rnd_colour = RED, rnd_kind = Circle, rnd_x = 300 \<rparr>"

definition later_frame :: frame where
  "later_frame = \<lparr> events = [], ticks_at_reset = 1001, ticks_at_update = 1001,
                   rnd_colour = RED, rnd_kind = Circle, rnd_x = 300 \<rparr>"

definition flight :: "rat \<Rightarrow> session" where
  "flight y =
     \<lparr> running = True, high_score = 0, game_state = STATE_PLAYING,
       collector = new_CollectorZones,
       shapes = [(new_FallingShape 0 RED Circle 300 3)\<lparr> pos_y := y \<rparr>],
       score = 0, lives = 3, current_fall_speed = 3, last_spawn_time = 1001, store = None,
       sounds = [], next_oid = 1 \<rparr>"

definition shipped :: "session \<Rightarrow> bool" where
  "shipped s = (zones_y (collector s) \<le> HEIGHT \<and> list_all (\<lambda>sh. 0 \<le> radius sh) (shapes s))"

text \<open>
  chatgpt.py: a shape is \<open>mismatched\<close> when the first branch of the collision loop takes
  a life for it, and \<open>fell_out\<close> when the second branch does, that is when it is
  off-screen without being at the zone row. The state \<open>crowded_low\<close> is reached from
  \<open>crowded_state\<close> by 14 more iterations: the four shapes have passed the zone row, the
  first of them is about to leave the screen.
\<close>

definition mismatched :: "CollectorZones \<Rightarrow> FallingShape \<Rightarrow> bool" where
  "mismatched c sh = (at_zone_row c sh \<and> colour sh \<noteq> get_centre_colour c)"

definition fell_out :: "CollectorZones \<Rightarrow> FallingShape \<Rightarrow> bool" where
  "fell_out c sh = (\<not> at_zone_row c sh \<and> is_off_screen sh)"

definition crowded_low :: game where
  "crowded_low =
     crowded_state\<lparr> shapes_g := [red_square 0 800, red_square 1 795, red_square 2 790, red_square 3 785] \<rparr>"

text \<open>
  A gemini shape with given identity, colour and position, and a zone with given colour
  and left edge.
\<close>

definition square_at :: "nat \<Rightarrow> colour \<Rightarrow> int \<Rightarrow> int \<Rightarrow> shape" where
  "square_at i c x y =
     \<lparr> sh_id = i, sh_type = Square, sh_color = c,
       sh_rect = \<lparr> left = x, top = y, width = 40, height = 40 \<rparr> \<rparr>"

definition zone_at :: "colour \<Rightarrow> int \<Rightarrow> zone" where
  "zone_at c x = \<lparr> zone_color = c, zone_rect = \<lparr> left = x, top = 750, width = 200, height = 50 \<rparr> \<rparr>"

section \<open>Zone rotation\<close>

lemma move_left_right_index: "index (move_right (move_left c)) = index c mod 3"
  by (simp add: move_left_def move_right_def mod_simps)

lemma move_right_left_index: "index (move_left (move_right c)) = index c mod 3"
  by (simp add: move_left_def move_right_def mod_simps)

lemma centre_colour_cong:
  "index c' = index c mod 3 \<Longrightarrow> colours c' = colours c \<Longrightarrow>
   get_centre_colour c' = get_centre_colour c"
  by (simp add: get_centre_colour_def mod_simps)

text \<open>
  Claim C3, as amended. In chatgpt.py the rotation is cyclic: \<open>move_left\<close> followed by
  \<open>move_right\<close>, and \<open>move_right\<close> followed by \<open>move_left\<close>, give back the
  centre colour for any index, and give back the whole collector for each of the three
  offsets 0, 1, 2, the end offsets included; every single move stays within the three
  offsets and changes the offset, so nothing is clamped. In gemini.py the zone position is
  clamped to 0..2: left then right gives the position back except from position 0, where
  it ends at 1, and right then left gives it back except from position 2, where it ends
  at 1.
\<close>

theorem rotation_cyclic_or_clamped:
  "get_centre_colour (move_right (move_left c)) = get_centre_colour c \<and>
   get_centre_colour (move_left (move_right c)) = get_centre_colour c \<and>
   (index c \<in> {0, 1, 2} \<longrightarrow>
      move_right (move_left c) = c \<and> move_left (move_right c) = c \<and>
      index (move_left c) \<in> {0, 1, 2} \<and> index (move_right c) \<in> {0, 1, 2} \<and>
      index (move_left c) \<noteq> index c \<and> index (move_right c) \<noteq> index c) \<and>
   (length (zones g) = 3 \<and> zone_position g \<in> {0, 1, 2} \<longrightarrow>
      zone_position (handle_event_g (handle_event_g g (KEYDOWN K_LEFT)) (KEYDOWN K_RIGHT)) =
        (if zone_position g = 0 then 1 else zone_position g) \<and>
      zone_position (handle_event_g (handle_event_g g (KEYDOWN K_RIGHT)) (KEYDOWN K_LEFT)) =
        (if zone_position g = 2 then 1 else zone_position g))"
proof -
  have a: "get_centre_colour (move_right (move_left c)) = get_centre_colour c"
    by (rule centre_colour_cong) (simp_all add: move_left_right_index, simp add: move_left_def move_right_def)
  have b: "get_centre_colour (move_left (move_right c)) = get_centre_colour c"
    by (rule centre_colour_cong) (simp_all add: move_right_left_index, simp add: move_left_def move_right_def)
  have c: "index c \<in> {0, 1, 2} \<longrightarrow>
      move_right (move_left c) = c \<and> move_left (move_right c) = c \<and>
      index (move_left c) \<in> {0, 1, 2} \<and> index (move_right c) \<in> {0, 1, 2} \<and>
      index (move_left c) \<noteq> index c \<and> index (move_right c) \<noteq> index c"
    by (auto simp: move_left_def move_right_def)
  have d: "length (zones g) = 3 \<and> zone_position g \<in> {0, 1, 2} \<longrightarrow>
      zone_position (handle_event_g (handle_event_g g (KEYDOWN K_LEFT)) (KEYDOWN K_RIGHT)) =
        (if zone_position g = 0 then 1 else zone_position g) \<and>
      zone_position (handle_event_g (handle_event_g g (KEYDOWN K_RIGHT)) (KEYDOWN K_LEFT)) =
        (if zone_position g = 2 then 1 else zone_position g)"
    by auto
  from a b c d show ?thesis by blast
qed

text \<open>
  The theorem at the collector of a new session moved once to the left (index 2, an end
  offset) and at the gemini start state moved once to the left (position 0).
\<close>

theorem rotation_cyclic_or_clamped_witness:
  "index (move_left new_CollectorZones) \<in> {0, 1, 2} \<and>
   move_right (move_left (move_left new_CollectorZones)) = move_left new_CollectorZones \<and>
   length (zones (handle_event_g game_start (KEYDOWN K_LEFT))) = 3 \<and>
   zone_position (handle_event_g game_start (KEYDOWN K_LEFT)) \<in> {0, 1, 2} \<and>
   zone_position (handle_event_g (handle_event_g (handle_event_g game_start (KEYDOWN K_LEFT))
      (KEYDOWN K_LEFT)) (KEYDOWN K_RIGHT)) = 1"
proof -
  have i: "index (move_left new_CollectorZones) \<in> {0, 1, 2}"
    by (simp add: move_left_def new_CollectorZones_def)
  have z: "length (zones (handle_event_g game_start (KEYDOWN K_LEFT))) = 3 \<and>
           zone_position (handle_event_g game_start (KEYDOWN K_LEFT)) \<in> {0, 1, 2}"
    by (simp add: game_start_def game_variables_def initial_zones_def)
  have p: "zone_position (handle_event_g game_start (KEYDOWN K_LEFT)) = 0"
    by (simp add: game_start_def game_variables_def)
  have i2: "index (move_left new_CollectorZones) = 2"
    by (simp add: move_left_def new_CollectorZones_def)
  from rotation_cyclic_or_clamped
    [of "move_left new_CollectorZones" "handle_event_g game_start (KEYDOWN K_LEFT)"]
  have "move_right (move_left (move_left new_CollectorZones)) = move_left new_CollectorZones"
    and "zone_position (handle_event_g (handle_event_g (handle_event_g game_start (KEYDOWN K_LEFT))
      (KEYDOWN K_LEFT)) (KEYDOWN K_RIGHT)) = 1"
    using i2 z p by simp_all
  with i z show ?thesis by simp
qed

text \<open>
  Claim C3 as stated fails in gemini.py: from the start state one press of LEFT puts the
  zone row at its left end (position 0, the blue zone over the middle third of the
  screen); a further LEFT followed by RIGHT leaves it at position 1 (the green zone over
  the middle third), not back at position 0.
\<close>

theorem rotation_round_trip_counterexample:
  "zone_position (run_g game_start [keys_g [K_LEFT] 0 RED 0]) = 0 \<and>
   zone_row (run_g game_start [keys_g [K_LEFT] 0 RED 0]) = [(RED, - 200), (GREEN, 0), (BLUE, 200)] \<and>
   zone_position (run_g game_start [keys_g [K_LEFT] 0 RED 0, keys_g [K_LEFT, K_RIGHT] 0 RED 0]) = 1 \<and>
   zone_row (run_g game_start [keys_g [K_LEFT] 0 RED 0, keys_g [K_LEFT, K_RIGHT] 0 RED 0]) =
     [(RED, 0), (GREEN, 200), (BLUE, 400)]"
  by code_simp

section \<open>Loading the high score\<close>

lemma py_int_abc: "py_int ''abc'' = None"
  by (simp add: py_int_def strip_def is_space_def digit_val_def digit_chars_def)

lemma load_high_score_default:
  "load_high_score None = 0"
  "py_int (strip content) = None \<Longrightarrow> load_high_score (Some content) = 0"
  by (simp_all add: load_high_score_def)

text \<open>
  Claim C8. \<^verbatim>\<open>load_high_score\<close> of chatgpt.py returns 0 for an absent file and for
  the unparsable content \<^verbatim>\<open>abc\<close> (and for every unparsable content, lemma
  \<open>load_high_score_default\<close>). \<^verbatim>\<open>load_high_score\<close> of gemini.py returns 0 for an
  absent file, but on the content \<^verbatim>\<open>abc\<close> the \<^verbatim>\<open>ValueError\<close> of
  \<^verbatim>\<open>int\<close> is not caught: it leaves \<^verbatim>\<open>load_high_score\<close> and
  \<^verbatim>\<open>game_loop\<close>, whatever the frames are.
\<close>

theorem load_high_score_unparsable:
  "load_high_score None = 0 \<and> load_high_score (Some ''abc'') = 0 \<and>
   load_high_score_g None = Inr 0 \<and> load_high_score_g (Some ''abc'') = Inl ValueError \<and>
   game_loop (Some ''abc'') t0 fs = Inl ValueError"
  by (simp add: load_high_score_def load_high_score_g_def game_loop_def game_loop_init_def
      py_int_abc strip_def is_space_def)

section \<open>Time of flight to the zone row\<close>

lemma update_iter_y: "pos_y ((update ^^ n) sh) = pos_y sh + of_nat n * speed sh"
  and update_iter_speed: "speed ((update ^^ n) sh) = speed sh"
  and update_iter_radius: "radius ((update ^^ n) sh) = radius sh"
  by (induction n) (simp_all add: update_def algebra_simps)

text \<open>
  Claim C9, as amended. A shape of chatgpt.py with positive speed S that is not yet at the
  zone row satisfies the contact condition \<^verbatim>\<open>shape.y + shape.size >= collector.y\<close>
  after n updates exactly when n is at least ceil((zoneY - size - y) / S): the first
  contact comes after exactly that many updates, where y is the shape's position (its
  centre) and size its half-height. The number depends on nothing else.
\<close>

theorem contact_after:
  assumes "0 < speed sh" and "\<not> at_zone_row c sh"
  shows "at_zone_row c ((update ^^ n) sh) \<longleftrightarrow>
         nat \<lceil>(of_int (zones_y c) - of_int (radius sh) - pos_y sh) / speed sh\<rceil> \<le> n"
proof -
  let ?d = "of_int (zones_y c) - of_int (radius sh) - pos_y sh"
  have "at_zone_row c ((update ^^ n) sh) \<longleftrightarrow> ?d \<le> of_nat n * speed sh"
    by (simp add: at_zone_row_def update_iter_y update_iter_radius algebra_simps)
  also have "\<dots> \<longleftrightarrow> ?d / speed sh \<le> of_nat n"
    using assms(1) by (simp add: pos_divide_le_eq)
  also have "\<dots> \<longleftrightarrow> \<lceil>?d / speed sh\<rceil> \<le> int n"
    by (simp add: ceiling_le_iff)
  also have "\<dots> \<longleftrightarrow> nat \<lceil>?d / speed sh\<rceil> \<le> n"
    by linarith
  finally show ?thesis .
qed

lemma shape_at_spawn_fields:
  "pos_y shape_at_spawn = - 50" "speed shape_at_spawn = 3" "radius shape_at_spawn = 30"
  "zones_y new_CollectorZones = 750"
  by (simp_all add: shape_at_spawn_def new_FallingShape_def SHAPE_FALL_SPEED_def
      new_CollectorZones_def HEIGHT_def BOTTOM_MARGIN_def)

lemma flight_257: "\<lceil>(770 :: rat) / 3\<rceil> = 257"
  by (simp add: ceiling_eq_iff)

lemma flight_267: "\<lceil>(800 :: rat) / 3\<rceil> = 267"
  by (simp add: ceiling_eq_iff)

text \<open>
  The theorem at a shape as the constructor makes it (y = -50, size 30, speed 3) and the
  zone row of a new session (y = 750): contact after 257 updates and not after 256.
\<close>

theorem contact_after_witness:
  "0 < speed shape_at_spawn \<and> \<not> at_zone_row new_CollectorZones shape_at_spawn \<and>
   at_zone_row new_CollectorZones ((update ^^ 257) shape_at_spawn) \<and>
   \<not> at_zone_row new_CollectorZones ((update ^^ 256) shape_at_spawn)"
proof -
  have h1: "0 < speed shape_at_spawn"
    by (simp add: shape_at_spawn_fields)
  have h2: "\<not> at_zone_row new_CollectorZones shape_at_spawn"
    by (simp add: at_zone_row_def shape_at_spawn_fields)
  have n: "nat \<lceil>(of_int (zones_y new_CollectorZones) - of_int (radius shape_at_spawn)
              - pos_y shape_at_spawn) / speed shape_at_spawn\<rceil> = 257"
    by (simp add: shape_at_spawn_fields flight_257)
  from contact_after [OF h1 h2, of 257] contact_after [OF h1 h2, of 256] n h1 h2
  show ?thesis by simp
qed

text \<open>
  Claim C9 as stated fails: with the position of the shape taken as startY, the formula
  ceil((zoneY - startY) / S) gives 267 for a shape as the constructor makes it, but the
  contact condition already holds after 257 updates.
\<close>

theorem contact_formula_counterexample:
  "nat \<lceil>(of_int (zones_y new_CollectorZones) - pos_y shape_at_spawn) / speed shape_at_spawn\<rceil> = 267 \<and>
   at_zone_row new_CollectorZones ((update ^^ 257) shape_at_spawn)"
  by (simp add: at_zone_row_def update_iter_y update_iter_radius shape_at_spawn_fields flight_267)

section \<open>The collision loop and the removal loop of chatgpt.py\<close>

lemma check_shape_eq:
  "check_shape (s, tr) sh =
     (if matched (collector s) sh then
        (s\<lparr> score := score s + 1, sounds := sounds s @ [OnMatch],
            current_fall_speed := (if (score s + 1) mod SPEED_INCREMENT_INTERVAL = 0
               then current_fall_speed s + SPEED_INCREMENT_AMOUNT else current_fall_speed s) \<rparr>,
         tr @ [sh])
      else if resolved (collector s) sh then
        (s\<lparr> lives := lives s - 1, sounds := sounds s @ [OnMiss] \<rparr>, tr @ [sh])
      else (s, tr))"
  by (auto simp: check_shape_def matched_def resolved_def Let_def)

lemma check_shape_frame:
  "collector (fst (check_shape (s, tr) sh)) = collector s"
  "shapes (fst (check_shape (s, tr) sh)) = shapes s"
  "game_state (fst (check_shape (s, tr) sh)) = game_state s"
  "high_score (fst (check_shape (s, tr) sh)) = high_score s"
  "store (fst (check_shape (s, tr) sh)) = store s"
  "running (fst (check_shape (s, tr) sh)) = running s"
  "next_oid (fst (check_shape (s, tr) sh)) = next_oid s"
  "last_spawn_time (fst (check_shape (s, tr) sh)) = last_spawn_time s"
  by (simp_all add: check_shape_eq)

lemma foldl_check_shape:
  "foldl check_shape (s, tr) xs = (s', tr') \<Longrightarrow>
     collector s' = collector s \<and> shapes s' = shapes s \<and> game_state s' = game_state s \<and>
     high_score s' = high_score s \<and> store s' = store s \<and> running s' = running s \<and>
     next_oid s' = next_oid s \<and> last_spawn_time s' = last_spawn_time s \<and>
     score s' = score s + int (length (filter (matched (collector s)) xs)) \<and>
     lives s' = lives s - int (length (filter (\<lambda>sh. resolved (collector s) sh \<and> \<not> matched (collector s) sh) xs)) \<and>
     sounds s' = sounds s @ map (notice (collector s)) (filter (resolved (collector s)) xs) \<and>
     tr' = tr @ filter (resolved (collector s)) xs"
proof (induction xs arbitrary: s tr)
  case Nil
  then show ?case by simp
next
  case (Cons x xs)
  obtain s1 tr1 where st: "check_shape (s, tr) x = (s1, tr1)"
    by (cases "check_shape (s, tr) x")
  with Cons.prems have "foldl check_shape (s1, tr1) xs = (s', tr')" by simp
  from Cons.IH [OF this] have ih:
    "collector s' = collector s1" "shapes s' = shapes s1" "game_state s' = game_state s1"
    "high_score s' = high_score s1" "store s' = store s1" "running s' = running s1"
    "next_oid s' = next_oid s1" "last_spawn_time s' = last_spawn_time s1"
    "score s' = score s1 + int (length (filter (matched (collector s1)) xs))"
    "lives s' = lives s1 - int (length (filter (\<lambda>sh. resolved (collector s1) sh \<and> \<not> matched (collector s1) sh) xs))"
    "sounds s' = sounds s1 @ map (notice (collector s1)) (filter (resolved (collector s1)) xs)"
    "tr' = tr1 @ filter (resolved (collector s1)) xs"
    by simp_all
  have m: "matched (collector s) x \<Longrightarrow> resolved (collector s) x"
    by (simp add: matched_def resolved_def)
  from st have c1: "collector s1 = collector s"
    by (auto simp: check_shape_eq split: if_splits)
  show ?case
    using st ih m unfolding c1
    by (auto simp: check_shape_eq notice_def split: if_splits)
qed

lemma remove_obj_filter:
  "distinct (map oid l) \<Longrightarrow> remove_obj sh l = filter (\<lambda>a. oid a \<noteq> oid sh) l"
proof (induction l)
  case Nil
  then show ?case by simp
next
  case (Cons a l)
  show ?case
  proof (cases "oid a = oid sh")
    case True
    from Cons.prems have "oid a \<notin> oid ` set l" by simp
    then have "\<forall>b\<in>set l. oid b \<noteq> oid a" by (metis imageI)
    with True have "\<forall>b\<in>set l. oid b \<noteq> oid sh" by simp
    then have "filter (\<lambda>a. oid a \<noteq> oid sh) l = l" by (simp add: filter_id_conv)
    with True show ?thesis by simp
  next
    case False
    with Cons show ?thesis by simp
  qed
qed

lemma distinct_map_filter_oid: "distinct (map oid l) \<Longrightarrow> distinct (map oid (filter P l))"
  by (simp add: distinct_map_filter)

lemma remove_shapes_filter:
  "distinct (map oid l) \<Longrightarrow> remove_shapes tr l = filter (\<lambda>a. oid a \<notin> oid ` set tr) l"
proof (induction tr arbitrary: l)
  case Nil
  then show ?case by (simp add: remove_shapes_def)
next
  case (Cons t tr)
  have "remove_shapes (t # tr) l = remove_shapes tr (remove_obj t l)"
    by (simp add: remove_shapes_def)
  also have "\<dots> = remove_shapes tr (filter (\<lambda>a. oid a \<noteq> oid t) l)"
    using Cons.prems by (simp add: remove_obj_filter)
  also have "\<dots> = filter (\<lambda>a. oid a \<notin> oid ` set tr) (filter (\<lambda>a. oid a \<noteq> oid t) l)"
    using Cons.prems by (intro Cons.IH distinct_map_filter_oid)
  also have "\<dots> = filter (\<lambda>a. oid a \<notin> oid ` set (t # tr)) l"
    by (auto intro: filter_cong)
  finally show ?case .
qed

lemma remove_resolved:
  assumes "distinct (map oid l)"
  shows "remove_shapes (filter P l) l = filter (\<lambda>a. \<not> P a) l"
proof -
  have "filter (\<lambda>a. oid a \<notin> oid ` set (filter P l)) l = filter (\<lambda>a. \<not> P a) l"
  proof (rule filter_cong [OF refl])
    fix a assume a: "a \<in> set l"
    show "(oid a \<notin> oid ` set (filter P l)) = (\<not> P a)"
    proof
      assume "oid a \<notin> oid ` set (filter P l)"
      with a show "\<not> P a" by auto
    next
      assume n: "\<not> P a"
      show "oid a \<notin> oid ` set (filter P l)"
      proof
        assume "oid a \<in> oid ` set (filter P l)"
        then obtain b where b: "b \<in> set l" "P b" "oid b = oid a" by auto
        from assms have "inj_on oid (set l)" by (simp add: distinct_map)
        with a b have "a = b" by (auto dest: inj_onD)
        with n b show False by simp
      qed
    qed
  qed
  with remove_shapes_filter [OF assms] show ?thesis by simp
qed

section \<open>One playing frame of chatgpt.py\<close>

lemma oid_update [simp]: "oid (update sh) = oid sh"
  by (simp add: update_def)

lemma moved_eq:
  "moved f s = map update (shapes (spawn f s))"
  by (simp add: moved_def update_shapes_def)

lemma spawn_shapes:
  "shapes (spawn f s) =
     (if ticks_at_update f - last_spawn_time s > SHAPE_SPAWN_INTERVAL
      then shapes s @ [new_FallingShape (next_oid s) (rnd_colour f) (rnd_kind f) (rnd_x f) (current_fall_speed s)]
      else shapes s)"
  by (simp add: spawn_def)

lemma spawn_frame:
  "collector (spawn f s) = collector s" "score (spawn f s) = score s" "lives (spawn f s) = lives s"
  "sounds (spawn f s) = sounds s" "game_state (spawn f s) = game_state s"
  "high_score (spawn f s) = high_score s" "store (spawn f s) = store s"
  "current_fall_speed (spawn f s) = current_fall_speed s" "running (spawn f s) = running s"
  by (simp_all add: spawn_def)

lemma oids_ok_spawn: "oids_ok s \<Longrightarrow> oids_ok (spawn f s)"
  by (auto simp: oids_ok_def spawn_def new_FallingShape_def list_all_iff less_Suc_eq)

lemma oids_ok_moved: "oids_ok s \<Longrightarrow> distinct (map oid (moved f s))"
  using oids_ok_spawn [of s f] by (simp add: moved_eq oids_ok_def comp_def)

lemma check_shapes_result:
  assumes "check_shapes s1 = (s', tr')"
  shows "collector s' = collector s1" "shapes s' = shapes s1" "game_state s' = game_state s1"
    "high_score s' = high_score s1" "store s' = store s1" "running s' = running s1"
    "next_oid s' = next_oid s1" "last_spawn_time s' = last_spawn_time s1"
    "score s' = score s1 + int (length (filter (matched (collector s1)) (shapes s1)))"
    "lives s' = lives s1 - int (length (filter (\<lambda>sh. resolved (collector s1) sh \<and> \<not> matched (collector s1) sh) (shapes s1)))"
    "sounds s' = sounds s1 @ map (notice (collector s1)) (filter (resolved (collector s1)) (shapes s1))"
    "tr' = filter (resolved (collector s1)) (shapes s1)"
  using foldl_check_shape [of s1 "[]" "shapes s1" s' tr'] assms
  by (simp_all add: check_shapes_def)

lemma update_logic_eq:
  "update_logic f s = (if game_state s = STATE_PLAYING then check_game_over (after_checks f s) else s)"
  by (simp add: update_logic_def after_checks_def Let_def)

lemma after_checks_fields:
  shows "collector (after_checks f s) = collector s"
    and "game_state (after_checks f s) = game_state s"
    and "high_score (after_checks f s) = high_score s"
    and "store (after_checks f s) = store s"
    and "running (after_checks f s) = running s"
    and "score (after_checks f s) = score s + int (length (filter (matched (collector s)) (moved f s)))"
    and "lives (after_checks f s) = lives s - int (length (filter (\<lambda>sh. resolved (collector s) sh \<and> \<not> matched (collector s) sh) (moved f s)))"
    and "sounds (after_checks f s) = sounds s @ map (notice (collector s)) (filter (resolved (collector s)) (moved f s))"
    and "shapes (after_checks f s) = remove_shapes (filter (resolved (collector s)) (moved f s)) (moved f s)"
proof -
  let ?s1 = "update_shapes (spawn f s)"
  obtain s' tr' where r: "check_shapes ?s1 = (s', tr')" by (cases "check_shapes ?s1")
  have s1: "collector ?s1 = collector s" "shapes ?s1 = moved f s" "score ?s1 = score s"
    "lives ?s1 = lives s" "sounds ?s1 = sounds s" "game_state ?s1 = game_state s"
    "high_score ?s1 = high_score s" "store ?s1 = store s" "running ?s1 = running s"
    by (simp_all add: update_shapes_def spawn_frame moved_def)
  note cr = check_shapes_result [OF r, unfolded s1]
  have ac: "after_checks f s = s'\<lparr> shapes := remove_shapes tr' (shapes s') \<rparr>"
    by (simp add: after_checks_def Let_def r)
  show "collector (after_checks f s) = collector s"
    and "game_state (after_checks f s) = game_state s"
    and "high_score (after_checks f s) = high_score s"
    and "store (after_checks f s) = store s"
    and "running (after_checks f s) = running s"
    and "score (after_checks f s) = score s + int (length (filter (matched (collector s)) (moved f s)))"
    and "lives (after_checks f s) = lives s - int (length (filter (\<lambda>sh. resolved (collector s) sh \<and> \<not> matched (collector s) sh) (moved f s)))"
    and "sounds (after_checks f s) = sounds s @ map (notice (collector s)) (filter (resolved (collector s)) (moved f s))"
    and "shapes (after_checks f s) = remove_shapes (filter (resolved (collector s)) (moved f s)) (moved f s)"
    by (simp_all add: ac cr)
qed

lemma check_game_over_fields:
  "score (check_game_over s) = score s" "lives (check_game_over s) = lives s"
  "shapes (check_game_over s) = shapes s" "collector (check_game_over s) = collector s"
  "running (check_game_over s) = running s"
  "sounds (check_game_over s) = sounds s @ (if lives s \<le> 0 then [OnGameOver] else [])"
  "game_state (check_game_over s) = (if lives s \<le> 0 then STATE_GAMEOVER else game_state s)"
  "high_score (check_game_over s) = (if lives s \<le> 0 \<and> score s > high_score s then score s else high_score s)"
  "store (check_game_over s) = (if lives s \<le> 0 \<and> score s > high_score s then save_high_score (score s) else store s)"
  by (simp_all add: check_game_over_def Let_def)

section \<open>The collision loop of gemini.py\<close>

lemma lose_life_fields:
  "lives_g (lose_life g) = lives_g g - 1" "score_g (lose_life g) = score_g g"
  "high_score_g (lose_life g) = high_score_g g" "zones (lose_life g) = zones g"
  "shapes_g (lose_life g) = shapes_g g" "shape_speed (lose_life g) = shape_speed g"
  "store_g (lose_life g) = store_g g" "zone_position (lose_life g) = zone_position g"
  "game_over (lose_life g) = (game_over g \<or> lives_g g = 1)"
  "sounds_g (lose_life g) = sounds_g g @ OnMiss # (if lives_g g = 1 then [OnGameOver] else [])"
  by (auto simp: lose_life_def Let_def)

lemma score_point_fields:
  "score_g (score_point g) = score_g g + 1" "lives_g (score_point g) = lives_g g"
  "high_score_g (score_point g) = max (high_score_g g) (score_g g + 1)"
  "zones (score_point g) = zones g" "shapes_g (score_point g) = shapes_g g"
  "game_over (score_point g) = game_over g" "store_g (score_point g) = store_g g"
  "zone_position (score_point g) = zone_position g"
  "sounds_g (score_point g) = sounds_g g @ [OnMatch]"
  "shape_speed (score_point g) =
     (if (score_g g + 1) mod speed_increase_interval = 0 then shape_speed g + 1 else shape_speed g)"
  by (auto simp: score_point_def Let_def)

lemma collide_shape_cases:
  "collide_shape g sh =
     (if off_screen_g sh then lose_life (g\<lparr> shapes_g := remove_eq sh (shapes_g g) \<rparr>)
      else if matched_g g sh then
        (score_point g)\<lparr> shapes_g :=
           remove_eq (sh\<lparr> sh_rect := (sh_rect sh)\<lparr> top := screen_height \<rparr> \<rparr>)
             (set_top (sh_id sh) screen_height (shapes_g g)) \<rparr>
      else if missed_g g sh then (lose_life g)\<lparr> shapes_g := remove_eq sh (shapes_g g) \<rparr>
      else g)"
  by (auto simp: collide_shape_def matched_g_def missed_g_def Let_def score_point_fields
      lose_life_fields split: option.splits)

lemma collide_shape_fields:
  "zones (collide_shape g sh) = zones g"
  "zone_position (collide_shape g sh) = zone_position g"
  "store_g (collide_shape g sh) = store_g g"
  "score_g (collide_shape g sh) = score_g g + (if matched_g g sh then 1 else 0)"
  "lives_g (collide_shape g sh) = lives_g g - (if missed_g g sh then 1 else 0)"
  "high_score_g (collide_shape g sh) =
     (if matched_g g sh then max (high_score_g g) (score_g g + 1) else high_score_g g)"
  "game_over (collide_shape g sh) = (game_over g \<or> (missed_g g sh \<and> lives_g g = 1))"
  by (auto simp: collide_shape_cases lose_life_fields score_point_fields matched_g_def missed_g_def
      split: option.splits)

lemma matched_g_cong: "zones g' = zones g \<Longrightarrow> matched_g g' = matched_g g"
  by (rule ext) (simp add: matched_g_def hit_zone_def)

lemma missed_g_cong: "zones g' = zones g \<Longrightarrow> missed_g g' = missed_g g"
  by (rule ext) (simp add: missed_g_def hit_zone_def)

lemma foldl_collide_shape:
  "zones (foldl collide_shape g xs) = zones g \<and>
   zone_position (foldl collide_shape g xs) = zone_position g \<and>
   store_g (foldl collide_shape g xs) = store_g g \<and>
   score_g (foldl collide_shape g xs) = score_g g + int (length (filter (matched_g g) xs)) \<and>
   lives_g (foldl collide_shape g xs) = lives_g g - int (length (filter (missed_g g) xs))"
proof (induction xs arbitrary: g)
  case Nil
  show ?case by simp
next
  case (Cons x xs)
  have z: "zones (collide_shape g x) = zones g" by (simp add: collide_shape_fields)
  show ?case
    using Cons.IH [of "collide_shape g x"]
    by (simp add: collide_shape_fields matched_g_cong [OF z] missed_g_cong [OF z])
qed

lemma foldl_invariant:
  assumes "P g" and "\<And>g x. P g \<Longrightarrow> P (step g x)"
  shows "P (foldl step g xs)"
  using assms(1) by (induction xs arbitrary: g) (simp_all add: assms(2))

lemma lives_ok_collide: "lives_ok g \<Longrightarrow> lives_ok (collide_shape g sh)"
  by (cases "missed_g g sh") (auto simp: lives_ok_def collide_shape_fields)

lemma high_ok_collide: "high_ok hs g \<Longrightarrow> high_ok hs (collide_shape g sh)"
  by (cases "matched_g g sh") (auto simp: high_ok_def collide_shape_fields)

lemma handle_event_g_fields:
  "lives_g (handle_event_g g e) = lives_g g" "score_g (handle_event_g g e) = score_g g"
  "high_score_g (handle_event_g g e) = high_score_g g" "store_g (handle_event_g g e) = store_g g"
  "shapes_g (handle_event_g g e) = shapes_g g" "zones (handle_event_g g e) = zones g"
  "shape_speed (handle_event_g g e) = shape_speed g"
  "game_over (handle_event_g g e) = (game_over g \<or> e = QUIT)"
  by (cases e; simp)+

lemma foldl_handle_event_g:
  "lives_g (foldl handle_event_g g es) = lives_g g \<and> score_g (foldl handle_event_g g es) = score_g g \<and>
   high_score_g (foldl handle_event_g g es) = high_score_g g \<and> store_g (foldl handle_event_g g es) = store_g g \<and>
   shapes_g (foldl handle_event_g g es) = shapes_g g \<and> zones (foldl handle_event_g g es) = zones g \<and>
   shape_speed (foldl handle_event_g g es) = shape_speed g \<and>
   game_over (foldl handle_event_g g es) = (game_over g \<or> QUIT \<in> set es)"
proof (induction es arbitrary: g)
  case Nil
  show ?case by simp
next
  case (Cons e es)
  show ?case
    using Cons.IH [of "handle_event_g g e"]
    by (simp add: handle_event_g_fields) blast
qed

lemma handle_events_g_fields:
  "lives_g (handle_events_g f g) = lives_g g \<and> score_g (handle_events_g f g) = score_g g \<and>
   high_score_g (handle_events_g f g) = high_score_g g \<and> store_g (handle_events_g f g) = store_g g \<and>
   shapes_g (handle_events_g f g) = shapes_g g \<and> zones (handle_events_g f g) = zones g \<and>
   shape_speed (handle_events_g f g) = shape_speed g \<and>
   game_over (handle_events_g f g) = (game_over g \<or> QUIT \<in> set (events_g f))"
  unfolding handle_events_g_def by (rule foldl_handle_event_g)

section \<open>Resolution at the zone row\<close>

lemma update_logic_playing:
  assumes "game_state s = STATE_PLAYING"
  shows "score (update_logic f s) = score s + int (length (filter (matched (collector s)) (moved f s)))"
    and "lives (update_logic f s) = lives s - int (length (filter (\<lambda>sh. resolved (collector s) sh \<and> \<not> matched (collector s) sh) (moved f s)))"
    and "sounds (update_logic f s) = sounds s @ map (notice (collector s)) (filter (resolved (collector s)) (moved f s)) @ (if lives (update_logic f s) \<le> 0 then [OnGameOver] else [])"
    and "shapes (update_logic f s) = remove_shapes (filter (resolved (collector s)) (moved f s)) (moved f s)"
    and "game_state (update_logic f s) = (if lives (update_logic f s) \<le> 0 then STATE_GAMEOVER else STATE_PLAYING)"
    and "collector (update_logic f s) = collector s"
    and "running (update_logic f s) = running s"
  using assms by (simp_all add: update_logic_eq check_game_over_fields after_checks_fields)


lemma arrivals_facts:
  "game_state arrivals = STATE_PLAYING" "oids_ok arrivals"
  "score arrivals = 0" "lives arrivals = 3" "sounds arrivals = []"
  by (simp_all add: arrivals_def main_init_def oids_ok_def new_FallingShape_def NUM_LIVES_def)




section \<open>The crowded gemini run\<close>

lemma run_g_append: "run_g g (xs @ ys) = run_g (run_g g xs) ys"
proof (induction xs arbitrary: g)
  case Nil
  show ?case by simp
next
  case (Cons x xs)
  show ?case
  proof (cases "game_over g")
    case True
    then show ?thesis by (cases ys) simp_all
  next
    case False
    with Cons.IH show ?thesis by simp
  qed
qed

lemma run_crowded_prefix: "run_g game_start crowded_prefix = crowded_state"
  by code_simp

lemma tick_crowded_last:
  "tick_g crowded_last crowded_state = crowded_final\<lparr> store_g := None \<rparr>"
  by code_simp

lemma run_crowded: "run_g game_start (crowded_prefix @ [crowded_last]) = crowded_final\<lparr> store_g := None \<rparr>"
proof -
  have "\<not> game_over crowded_state" by (simp add: crowded_state_def)
  then show ?thesis
    by (simp add: run_g_append run_crowded_prefix tick_crowded_last)
qed

lemma game_loop_crowded: "game_loop None 0 (crowded_prefix @ [crowded_last]) = Inr crowded_final"
  using run_crowded
  by (simp add: game_loop_def game_loop_init_def load_high_score_g_def game_start_def [symmetric]
      game_over_sequence_def crowded_final_def save_high_score_g_def py_str_def digit_chars_def)


text \<open>
  Claim C2 as stated fails in gemini.py: the run \<open>crowded_prefix\<close> ends with three
  lives and the loop still running; one more iteration, in which the zone row is shifted
  under the four shapes, ends with minus one lives.
\<close>

theorem lives_below_zero_counterexample:
  "lives_g (run_g game_start crowded_prefix) = 3 \<and>
   \<not> game_over (run_g game_start crowded_prefix) \<and>
   lives_g (run_g game_start (crowded_prefix @ [crowded_last])) = - 1"
  by (simp add: run_crowded run_crowded_prefix crowded_final_def crowded_state_def)

text \<open>
  Claim C5 as stated fails in gemini.py: with no high-score file (loaded high score 0) the
  game of the crowded run ends with score 0, which does not exceed the known high score,
  and \<^verbatim>\<open>game_loop\<close> writes the file all the same, with the content 0.
\<close>

theorem store_written_counterexample:
  "load_high_score_g None = Inr 0 \<and>
   game_loop None 0 (crowded_prefix @ [crowded_last]) = Inr crowded_final \<and>
   score_g crowded_final = 0 \<and> high_score_g crowded_final = 0 \<and>
   store_g crowded_final = Some ''0''"
  by (simp add: game_loop_crowded load_high_score_g_def crowded_final_def)

section \<open>Overlap, removal and the bottom of the screen\<close>

lemma hit_zone_Some:
  "hit_zone g sh = Some z \<Longrightarrow> z \<in> set (zones g) \<and> colliderect (sh_rect sh) (zone_rect z)"
  by (auto simp: hit_zone_def find_Some_iff)

lemma remove_eq_length:
  "a \<in> set l \<Longrightarrow> Suc (length (remove_eq a l)) = length l"
proof (induction l)
  case Nil
  then show ?case by simp
next
  case (Cons b l)
  show ?case
  proof (cases "same_value b a")
    case True
    then show ?thesis by simp
  next
    case False
    then have "b \<noteq> a" by (auto simp: same_value_def)
    with Cons False show ?thesis by simp
  qed
qed

lemma set_remove_obj: "set (remove_obj sh l) \<subseteq> set l"
  by (induction l) auto

lemma set_remove_shapes: "set (remove_shapes tr l) \<subseteq> set l"
proof (induction tr arbitrary: l)
  case Nil
  show ?case by (simp add: remove_shapes_def)
next
  case (Cons t tr)
  have "remove_shapes (t # tr) l = remove_shapes tr (remove_obj t l)"
    by (simp add: remove_shapes_def)
  with Cons.IH [of "remove_obj t l"] set_remove_obj [of t l] show ?case by auto
qed

lemma off_screen_at_zone_row:
  "0 \<le> radius sh \<Longrightarrow> zones_y c \<le> HEIGHT \<Longrightarrow> is_off_screen sh \<Longrightarrow> at_zone_row c sh"
proof -
  assume r: "0 \<le> radius sh" and z: "zones_y c \<le> HEIGHT" and o: "is_off_screen sh"
  from r have "(0::rat) \<le> of_int (radius sh)" by simp
  moreover from z have "(of_int (zones_y c) :: rat) \<le> of_int HEIGHT" by simp
  moreover from o have "pos_y sh - of_int (radius sh) > of_int HEIGHT" by (simp add: is_off_screen_def)
  ultimately show "at_zone_row c sh" by (simp add: at_zone_row_def)
qed

section \<open>Events, score and speed\<close>

lemma handle_event_const:
  "high_score (handle_event t s e) = high_score s" "store (handle_event t s e) = store s"
  "sounds (handle_event t s e) = sounds s" "next_oid (handle_event t s e) = next_oid s"
  by (cases e; simp)+

lemma handle_events_const:
  "high_score (handle_events f s) = high_score s \<and> store (handle_events f s) = store s \<and>
   sounds (handle_events f s) = sounds s \<and> next_oid (handle_events f s) = next_oid s"
proof -
  have "high_score (foldl (handle_event t) s es) = high_score s \<and>
        store (foldl (handle_event t) s es) = store s \<and>
        sounds (foldl (handle_event t) s es) = sounds s \<and>
        next_oid (foldl (handle_event t) s es) = next_oid s" for t es
    by (induction es arbitrary: s) (simp_all add: handle_event_const)
  then show ?thesis by (simp add: handle_events_def)
qed

lemma handle_event_playing:
  "game_state s = STATE_PLAYING \<Longrightarrow>
     game_state (handle_event t s e) = STATE_PLAYING \<and> score (handle_event t s e) = score s \<and>
     lives (handle_event t s e) = lives s \<and> shapes (handle_event t s e) = shapes s \<and>
     current_fall_speed (handle_event t s e) = current_fall_speed s"
  by (cases e) simp_all

lemma handle_events_playing:
  assumes "game_state s = STATE_PLAYING"
  shows "game_state (handle_events f s) = STATE_PLAYING \<and> score (handle_events f s) = score s \<and>
     lives (handle_events f s) = lives s \<and> shapes (handle_events f s) = shapes s \<and>
     current_fall_speed (handle_events f s) = current_fall_speed s"
proof -
  have "game_state s = STATE_PLAYING \<Longrightarrow>
        game_state (foldl (handle_event t) s es) = STATE_PLAYING \<and>
        score (foldl (handle_event t) s es) = score s \<and>
        lives (foldl (handle_event t) s es) = lives s \<and>
        shapes (foldl (handle_event t) s es) = shapes s \<and>
        current_fall_speed (foldl (handle_event t) s es) = current_fall_speed s" for t es
  proof (induction es arbitrary: s)
    case Nil
    then show ?case by simp
  next
    case (Cons e es)
    from handle_event_playing [OF Cons.prems, of t e] Cons.IH [of "handle_event t s e"]
    show ?case by simp
  qed
  with assms show ?thesis by (simp add: handle_events_def)
qed

lemma score_play: "score s \<le> score (play s fs)"
proof (induction fs arbitrary: s)
  case Nil
  show ?case by simp
next
  case (Cons f fs)
  show ?case
  proof (cases "game_state s = STATE_PLAYING \<and> running s")
    case True
    then have p: "game_state s = STATE_PLAYING" by simp
    from handle_events_playing [OF p, of f]
    have "score s \<le> score (tick f s)"
      by (simp add: tick_def update_logic_playing(1))
    also have "\<dots> \<le> score (play (tick f s) fs)" by (rule Cons.IH)
    finally show ?thesis using True by simp
  next
    case False
    then show ?thesis by auto
  qed
qed

lemma moved_g_fields:
  "lives_g (moved_g f g) = lives_g g" "score_g (moved_g f g) = score_g g"
  "high_score_g (moved_g f g) = high_score_g g" "store_g (moved_g f g) = store_g g"
  "game_over (moved_g f g) = (game_over g \<or> QUIT \<in> set (events_g f))"
  by (simp_all add: moved_g_def move_shapes_def spawn_g_def move_zones_def handle_events_g_fields)

lemma tick_g_eq: "tick_g f g = foldl collide_shape (moved_g f g) (shapes_g (moved_g f g))"
  by (simp add: tick_g_def moved_g_def collide_loop_def)

lemma tick_g_score:
  "score_g (tick_g f g) = score_g g + int (length (filter (matched_g (moved_g f g)) (shapes_g (moved_g f g))))"
  by (simp add: tick_g_eq foldl_collide_shape moved_g_fields)

lemma tick_g_lives:
  "lives_g (tick_g f g) = lives_g g - int (length (filter (missed_g (moved_g f g)) (shapes_g (moved_g f g))))"
  by (simp add: tick_g_eq foldl_collide_shape moved_g_fields)

lemma score_run_g: "score_g g \<le> score_g (run_g g fs)"
proof (induction fs arbitrary: g)
  case Nil
  show ?case by simp
next
  case (Cons f fs)
  show ?case
  proof (cases "game_over g")
    case True
    then show ?thesis by simp
  next
    case False
    have "score_g g \<le> score_g (tick_g f g)" by (simp add: tick_g_score)
    also have "\<dots> \<le> score_g (run_g (tick_g f g) fs)" by (rule Cons.IH)
    finally show ?thesis using False by simp
  qed
qed

text \<open>
  Claim C7. chatgpt.py: a frame that starts in the playing state adds to the score the
  number of shapes matched in it, one point each, and nothing else; so the score does not
  fall in a playing frame, nor over any run of frames of one session. gemini.py: every
  iteration adds to the score the number of shapes matched in it, one point each, and
  nothing else, so the score does not fall over any run of iterations.
\<close>

theorem score_only_rises:
  "(game_state s = STATE_PLAYING \<longrightarrow>
      score (tick f s) =
        score s + int (length (filter (matched (collector (handle_events f s))) (moved f (handle_events f s)))) \<and>
      score s \<le> score (tick f s)) \<and>
   score s \<le> score (play s fs) \<and>
   score_g (tick_g f' g) =
     score_g g + int (length (filter (matched_g (moved_g f' g)) (shapes_g (moved_g f' g)))) \<and>
   score_g g \<le> score_g (tick_g f' g) \<and>
   score_g g \<le> score_g (run_g g fs')"
proof -
  have a: "game_state s = STATE_PLAYING \<longrightarrow>
      score (tick f s) =
        score s + int (length (filter (matched (collector (handle_events f s))) (moved f (handle_events f s)))) \<and>
      score s \<le> score (tick f s)"
  proof
    assume p: "game_state s = STATE_PLAYING"
    from handle_events_playing [OF p, of f]
    show "score (tick f s) =
        score s + int (length (filter (matched (collector (handle_events f s))) (moved f (handle_events f s)))) \<and>
      score s \<le> score (tick f s)"
      by (simp add: tick_def update_logic_playing(1))
  qed
  have b: "score_g g \<le> score_g (tick_g f' g)" by (simp add: tick_g_score)
  from a b score_play [of s fs] tick_g_score [of f' g] score_run_g [of g fs']
  show ?thesis by blast
qed

text \<open>
  The theorem at the playing session \<open>arrivals\<close>, where one of the two arriving shapes
  is matched.
\<close>

theorem score_only_rises_witness:
  "game_state arrivals = STATE_PLAYING \<and> score arrivals = 0 \<and> score (tick quiet_frame arrivals) = 1"
proof -
  have h: "filter (matched (collector (handle_events quiet_frame arrivals)))
             (moved quiet_frame (handle_events quiet_frame arrivals)) =
           [(new_FallingShape 0 GREEN Circle 300 3)\<lparr> pos_y := 720 \<rparr>]"
    by code_simp
  from score_only_rises [of arrivals quiet_frame] arrivals_facts(1,3) h
  show ?thesis by simp
qed

section \<open>Fall speed of live shapes\<close>

lemma moved_origin:
  assumes "a \<in> set (moved f s)"
  shows "(\<exists>b\<in>set (shapes s). oid a = oid b \<and> speed a = speed b \<and> pos_y a = pos_y b + speed b) \<or>
         (oid a = next_oid s \<and> speed a = current_fall_speed s)"
proof -
  from assms obtain b where b: "b \<in> set (shapes (spawn f s))" and a: "a = update b"
    by (auto simp: moved_eq)
  from a have u: "oid a = oid b" "speed a = speed b" "pos_y a = pos_y b + speed b"
    by (simp_all add: update_def)
  from b have "b \<in> set (shapes s) \<or>
      b = new_FallingShape (next_oid s) (rnd_colour f) (rnd_kind f) (rnd_x f) (current_fall_speed s)"
    by (auto simp: spawn_shapes split: if_splits)
  then show ?thesis
  proof
    assume "b \<in> set (shapes s)"
    with u show ?thesis by blast
  next
    assume "b = new_FallingShape (next_oid s) (rnd_colour f) (rnd_kind f) (rnd_x f) (current_fall_speed s)"
    with u show ?thesis by (simp add: new_FallingShape_def)
  qed
qed

text \<open>
  Claim C6, as amended. chatgpt.py: every shape that is live after a playing frame is
  either a shape that was live before, with the speed it had before and moved down by
  exactly that speed, or the shape spawned in this frame, whose speed is the session's
  current fall speed from before the frame's collision loop; an update never changes a
  shape's speed, so an increment of the current fall speed reaches only shapes spawned
  later. gemini.py keeps no speed in a shape: every iteration moves every live shape down
  by the one shared speed of the moment, which a match that brings the score to a
  multiple of 20 raises by one for all live shapes.
\<close>

theorem speed_fixed_at_spawn:
  "(game_state s = STATE_PLAYING \<longrightarrow>
      list_all (\<lambda>a. (\<exists>b\<in>set (shapes s). oid a = oid b \<and> speed a = speed b \<and> pos_y a = pos_y b + speed b) \<or>
                     (oid a = next_oid s \<and> speed a = current_fall_speed s))
               (shapes (update_logic f s))) \<and>
   speed (update sh) = speed sh \<and>
   shapes_g (move_shapes g) = map (move_shape (shape_speed g)) (shapes_g g) \<and>
   top (sh_rect (move_shape v sh')) = top (sh_rect sh') + v \<and>
   shape_speed (score_point g) =
     (if (score_g g + 1) mod speed_increase_interval = 0 then shape_speed g + 1 else shape_speed g)"
proof -
  have a: "game_state s = STATE_PLAYING \<longrightarrow>
      list_all (\<lambda>a. (\<exists>b\<in>set (shapes s). oid a = oid b \<and> speed a = speed b \<and> pos_y a = pos_y b + speed b) \<or>
                     (oid a = next_oid s \<and> speed a = current_fall_speed s))
               (shapes (update_logic f s))"
  proof
    assume p: "game_state s = STATE_PLAYING"
    have "set (shapes (update_logic f s)) \<subseteq> set (moved f s)"
      by (simp add: update_logic_playing(4) [OF p] set_remove_shapes)
    then show "list_all (\<lambda>a. (\<exists>b\<in>set (shapes s). oid a = oid b \<and> speed a = speed b \<and> pos_y a = pos_y b + speed b) \<or>
                     (oid a = next_oid s \<and> speed a = current_fall_speed s))
               (shapes (update_logic f s))"
      unfolding list_all_iff using moved_origin [of _ f s] by blast
  qed
  have b: "speed (update sh) = speed sh" by (simp add: update_def)
  have c: "shapes_g (move_shapes g) = map (move_shape (shape_speed g)) (shapes_g g)"
    by (simp add: move_shapes_def)
  have d: "top (sh_rect (move_shape v sh')) = top (sh_rect sh') + v"
    by (simp add: move_shape_def)
  from a b c d score_point_fields(10) [of g] show ?thesis by blast
qed

text \<open>
  The theorem at the playing session \<open>arrivals\<close> with a frame in which a shape is
  spawned: the surviving old shape keeps speed 3, the new one gets the current fall speed.
\<close>

theorem speed_fixed_at_spawn_witness:
  "game_state arrivals = STATE_PLAYING \<and>
   map (\<lambda>a. (oid a, speed a, pos_y a)) (shapes (update_logic (quiet_frame\<lparr> ticks_at_update := 1001 \<rparr>) arrivals))
     = [(2, 3, 103), (3, 3, - 47)] \<and>
   list_all (\<lambda>a. (\<exists>b\<in>set (shapes arrivals). oid a = oid b \<and> speed a = speed b \<and> pos_y a = pos_y b + speed b) \<or>
                  (oid a = next_oid arrivals \<and> speed a = current_fall_speed arrivals))
            (shapes (update_logic (quiet_frame\<lparr> ticks_at_update := 1001 \<rparr>) arrivals))"
proof -
  have h: "map (\<lambda>a. (oid a, speed a, pos_y a)) (shapes (update_logic (quiet_frame\<lparr> ticks_at_update := 1001 \<rparr>) arrivals))
     = [(2, 3, 103), (3, 3, - 47)]"
    by code_simp
  from speed_fixed_at_spawn [of arrivals "quiet_frame\<lparr> ticks_at_update := 1001 \<rparr>"]
    arrivals_facts(1) h
  show ?thesis by simp
qed

lemma run_twenty_prefix: "run_g game_start twenty_prefix = twenty_state"
  by code_simp

text \<open>
  Claim C6 as stated fails in gemini.py. The run \<open>twenty_prefix\<close> from the start state
  ends in \<open>twenty_state\<close>: score 19, speed 5, shape 19 at height 710 and shape 20 at
  height 660. The next iteration moves shape 20 by 5 to 665, and the match of shape 19
  brings the score to 20 and the speed to 6; the iteration after that moves shape 20,
  spawned 140 iterations before the increment, by 6 to 671.
\<close>

theorem retroactive_speed_counterexample:
  "run_g game_start twenty_prefix = twenty_state \<and>
   shape_speed twenty_state = 5 \<and> shape_tops twenty_state = [(19, 710), (20, 660)] \<and>
   shape_tops (tick_g (keys_g [] 42 RED 250) twenty_state) = [(20, 665)] \<and>
   score_g (tick_g (keys_g [] 42 RED 250) twenty_state) = 20 \<and>
   shape_speed (tick_g (keys_g [] 42 RED 250) twenty_state) = 6 \<and>
   shape_tops (tick_g (keys_g [] 42 RED 250) (tick_g (keys_g [] 42 RED 250) twenty_state)) =
     [(20, 671)]"
proof -
  have "shape_speed twenty_state = 5"
    and "shape_tops twenty_state = [(19, 710), (20, 660)]"
    and "shape_tops (tick_g (keys_g [] 42 RED 250) twenty_state) = [(20, 665)]"
    and "score_g (tick_g (keys_g [] 42 RED 250) twenty_state) = 20"
    and "shape_speed (tick_g (keys_g [] 42 RED 250) twenty_state) = 6"
    and "shape_tops (tick_g (keys_g [] 42 RED 250) (tick_g (keys_g [] 42 RED 250) twenty_state)) =
     [(20, 671)]"
    by code_simp+
  with run_twenty_prefix show ?thesis by simp
qed

section \<open>Lives and the end of a session\<close>

lemma session_ok_handle_event: "session_ok s \<Longrightarrow> session_ok (handle_event t s e)"
  by (cases e) (auto simp: session_ok_def NUM_LIVES_def)

lemma session_ok_handle_events: "session_ok s \<Longrightarrow> session_ok (handle_events f s)"
  unfolding handle_events_def
  by (rule foldl_invariant [where P = session_ok]) (simp_all add: session_ok_handle_event)

lemma lives_update_logic: "lives (update_logic f s) \<le> lives s"
  by (cases "game_state s = STATE_PLAYING")
    (simp_all add: update_logic_playing(2), simp add: update_logic_def)

lemma session_ok_update_logic: "session_ok s \<Longrightarrow> session_ok (update_logic f s)"
proof (cases "game_state s = STATE_PLAYING")
  case True
  assume ok: "session_ok s"
  from lives_update_logic [of f s] ok have "lives (update_logic f s) \<le> NUM_LIVES"
    by (simp add: session_ok_def)
  with update_logic_playing(5) [OF True, of f] show ?thesis
    by (auto simp: session_ok_def)
next
  case False
  assume "session_ok s"
  with False show ?thesis by (simp add: update_logic_def)
qed

lemma session_ok_tick: "session_ok s \<Longrightarrow> session_ok (tick f s)"
  by (simp add: tick_def session_ok_update_logic session_ok_handle_events)

lemma session_ok_run: "session_ok s \<Longrightarrow> session_ok (run s fs)"
  by (induction fs arbitrary: s) (simp_all add: session_ok_tick)

lemma session_ok_init: "session_ok (main_init file t0)"
  by (simp add: session_ok_def main_init_def)

lemma tick_playing:
  assumes "game_state s = STATE_PLAYING"
  shows "lives (tick f s) \<le> lives s"
    and "game_state (tick f s) = (if lives (tick f s) \<le> 0 then STATE_GAMEOVER else STATE_PLAYING)"
proof -
  from handle_events_playing [OF assms, of f]
  have p: "game_state (handle_events f s) = STATE_PLAYING" and l: "lives (handle_events f s) = lives s"
    by simp_all
  from lives_update_logic [of f "handle_events f s"] l show "lives (tick f s) \<le> lives s"
    by (simp add: tick_def)
  from update_logic_playing(5) [OF p, of f]
  show "game_state (tick f s) = (if lives (tick f s) \<le> 0 then STATE_GAMEOVER else STATE_PLAYING)"
    by (simp add: tick_def)
qed

lemma lives_ok_moved_g: "lives_ok g \<Longrightarrow> lives_ok (moved_g f g)"
  by (simp add: lives_ok_def moved_g_fields)

lemma lives_ok_tick_g: "lives_ok g \<Longrightarrow> lives_ok (tick_g f g)"
  unfolding tick_g_eq
  by (rule foldl_invariant [where P = lives_ok]) (simp_all add: lives_ok_moved_g lives_ok_collide)

lemma lives_ok_run_g: "lives_ok g \<Longrightarrow> lives_ok (run_g g fs)"
  by (induction fs arbitrary: g) (simp_all add: lives_ok_tick_g)

lemma lives_ok_game_variables: "lives_ok (game_variables file hs t0)"
  by (simp add: lives_ok_def game_variables_def)

lemma flag_collide:
  "game_over g = (q \<or> lives_g g \<le> 0) \<Longrightarrow>
   game_over (collide_shape g sh) = (q \<or> lives_g (collide_shape g sh) \<le> 0)"
  by (cases "missed_g g sh") (auto simp: collide_shape_fields)

lemma flag_tick_g:
  assumes "lives_ok g" and "\<not> game_over g"
  shows "game_over (tick_g f g) = (QUIT \<in> set (events_g f) \<or> lives_g (tick_g f g) \<le> 0)"
proof -
  from assms have "0 < lives_g g" by (auto simp: lives_ok_def)
  with assms(2)
  have "game_over (moved_g f g) = (QUIT \<in> set (events_g f) \<or> lives_g (moved_g f g) \<le> 0)"
    by (simp add: moved_g_fields)
  then show ?thesis
    unfolding tick_g_eq
    by (rule foldl_invariant
        [where P = "\<lambda>g. game_over g = (QUIT \<in> set (events_g f) \<or> lives_g g \<le> 0)"])
      (rule flag_collide)
qed

text \<open>
  Claim C2, as amended. chatgpt.py: in every state reached from the start of the program
  by any run of frames the lives are at most NUM_LIVES, at least 1 in the playing state
  and at most 0 in the game-over state; a frame that starts in the playing state does
  not raise the lives and ends in the game-over state exactly when the lives after its
  resolutions are 0 or less, otherwise it stays in the playing state. gemini.py: in
  every state reached by any run of iterations the lives are at most 3 and the flag
  that ends the loop is set whenever the lives are 0 or less; an iteration that starts
  with the flag clear does not raise the lives and sets the flag exactly when the lives
  afterwards are 0 or less or a QUIT event was queued.
\<close>

theorem lives_and_game_over:
  "session_ok (run (main_init file t0) fs) \<and>
   (game_state s = STATE_PLAYING \<longrightarrow>
      lives (tick f s) \<le> lives s \<and>
      game_state (tick f s) = (if lives (tick f s) \<le> 0 then STATE_GAMEOVER else STATE_PLAYING)) \<and>
   lives_ok (run_g (game_variables file' hs t0') fs') \<and>
   (lives_ok g \<and> \<not> game_over g \<longrightarrow>
      lives_g (tick_g f' g) \<le> lives_g g \<and>
      game_over (tick_g f' g) = (QUIT \<in> set (events_g f') \<or> lives_g (tick_g f' g) \<le> 0))"
proof -
  have a: "session_ok (run (main_init file t0) fs)"
    by (rule session_ok_run) (rule session_ok_init)
  have b: "game_state s = STATE_PLAYING \<longrightarrow>
      lives (tick f s) \<le> lives s \<and>
      game_state (tick f s) = (if lives (tick f s) \<le> 0 then STATE_GAMEOVER else STATE_PLAYING)"
    using tick_playing [of s f] by blast
  have c: "lives_ok (run_g (game_variables file' hs t0') fs')"
    by (rule lives_ok_run_g) (rule lives_ok_game_variables)
  have d: "lives_ok g \<and> \<not> game_over g \<longrightarrow>
      lives_g (tick_g f' g) \<le> lives_g g \<and>
      game_over (tick_g f' g) = (QUIT \<in> set (events_g f') \<or> lives_g (tick_g f' g) \<le> 0)"
    using flag_tick_g [of g f'] by (simp add: tick_g_lives)
  from a b c d show ?thesis by blast
qed

text \<open>
  The theorem at the chatgpt run that starts a session, at the session \<open>last_life\<close>,
  whose last life is lost in the next frame, and at the crowded gemini run, which ends
  with the flag set and minus one lives.
\<close>

theorem lives_and_game_over_witness:
  "game_state (run (main_init None 0) [start_frame]) = STATE_PLAYING \<and>
   lives (run (main_init None 0) [start_frame]) = 3 \<and>
   game_state last_life = STATE_PLAYING \<and> lives last_life = 1 \<and>
   lives (tick quiet_frame last_life) = 0 \<and>
   game_state (tick quiet_frame last_life) = STATE_GAMEOVER \<and>
   lives_ok (run_g game_start (crowded_prefix @ [crowded_last])) \<and>
   lives_g (run_g game_start (crowded_prefix @ [crowded_last])) \<le> 0 \<and>
   game_over (run_g game_start (crowded_prefix @ [crowded_last])) \<and>
   lives_ok crowded_state \<and> \<not> game_over crowded_state \<and>
   game_over (tick_g crowded_last crowded_state)"
proof -
  have h: "game_state (run (main_init None 0) [start_frame]) = STATE_PLAYING"
    "lives (run (main_init None 0) [start_frame]) = 3"
    "game_state last_life = STATE_PLAYING" "lives last_life = 1"
    "lives (tick quiet_frame last_life) = 0"
    "lives_ok crowded_state" "\<not> game_over crowded_state"
    by code_simp+
  have r: "lives_g (run_g game_start (crowded_prefix @ [crowded_last])) \<le> 0"
    "lives_g (tick_g crowded_last crowded_state) \<le> 0"
    by (simp_all add: run_crowded tick_crowded_last crowded_final_def)
  from lives_and_game_over [of None 0 "[start_frame]" last_life quiet_frame None 0 0
      "crowded_prefix @ [crowded_last]" crowded_state crowded_last] h r
  show ?thesis by (simp add: game_start_def lives_ok_def)
qed

section \<open>Writing the high score\<close>

lemma tick_store:
  "store (tick f s) =
     (if ends_session f s \<and> high_score s < score (tick f s)
      then Some (py_str (score (tick f s))) else store s)"
  "high_score (tick f s) =
     (if ends_session f s \<and> high_score s < score (tick f s)
      then score (tick f s) else high_score s)"
  "ends_session f s =
     (game_state (handle_events f s) = STATE_PLAYING \<and> game_state (tick f s) = STATE_GAMEOVER)"
proof -
  let ?s = "handle_events f s"
  have c: "high_score ?s = high_score s" "store ?s = store s"
    by (simp_all add: handle_events_const)
  show "store (tick f s) =
     (if ends_session f s \<and> high_score s < score (tick f s)
      then Some (py_str (score (tick f s))) else store s)"
    by (cases "game_state ?s = STATE_PLAYING")
      (simp_all add: tick_def ends_session_def update_logic_eq check_game_over_fields
        after_checks_fields c save_high_score_def)
  show "high_score (tick f s) =
     (if ends_session f s \<and> high_score s < score (tick f s)
      then score (tick f s) else high_score s)"
    by (cases "game_state ?s = STATE_PLAYING")
      (simp_all add: tick_def ends_session_def update_logic_eq check_game_over_fields
        after_checks_fields c)
  show "ends_session f s =
     (game_state (handle_events f s) = STATE_PLAYING \<and> game_state (tick f s) = STATE_GAMEOVER)"
    by (cases "game_state ?s = STATE_PLAYING")
      (simp_all add: tick_def ends_session_def update_logic_eq check_game_over_fields
        after_checks_fields)
qed

lemma high_ok_moved_g: "high_ok hs g \<Longrightarrow> high_ok hs (moved_g f g)"
  by (simp add: high_ok_def moved_g_fields)

lemma high_ok_tick_g: "high_ok hs g \<Longrightarrow> high_ok hs (tick_g f g)"
  unfolding tick_g_eq
  by (rule foldl_invariant [where P = "high_ok hs"]) (simp_all add: high_ok_moved_g high_ok_collide)

lemma high_ok_run_g: "high_ok hs g \<Longrightarrow> high_ok hs (run_g g fs)"
  by (induction fs arbitrary: g) (simp_all add: high_ok_tick_g)

lemma store_tick_g: "store_g (tick_g f g) = store_g g"
  by (simp add: tick_g_eq foldl_collide_shape moved_g_fields)

lemma store_run_g: "store_g (run_g g fs) = store_g g"
  by (induction fs arbitrary: g) (simp_all add: store_tick_g)

text \<open>
  Claim C5, as amended. chatgpt.py: a frame changes the high score and the high-score
  file only when it takes the session from playing to game over with a score above the
  known high score; then both become that score. In every other frame, and when the
  final score does not exceed the known high score, both stay as they are. gemini.py:
  the high-score variable is raised during play, so that with a loaded high score
  \<open>hs\<close> of at least 0 it is always the larger of \<open>hs\<close> and the score; when the loop ends,
  the file is written with that value whether or not the score exceeded \<open>hs\<close>, and
  while the loop runs the file is not written.
\<close>

theorem high_score_persisted:
  "ends_session f s =
     (game_state (handle_events f s) = STATE_PLAYING \<and> game_state (tick f s) = STATE_GAMEOVER) \<and>
   store (tick f s) =
     (if ends_session f s \<and> high_score s < score (tick f s)
      then Some (py_str (score (tick f s))) else store s) \<and>
   high_score (tick f s) =
     (if ends_session f s \<and> high_score s < score (tick f s)
      then score (tick f s) else high_score s) \<and>
   (load_high_score_g file = Inr hs \<and> 0 \<le> hs \<longrightarrow>
      (case game_loop file t0 fs of
         Inl e \<Rightarrow> False
       | Inr g \<Rightarrow>
           high_score_g g = max hs (score_g g) \<and>
           store_g g = (if game_over g then Some (py_str (max hs (score_g g))) else file)))"
proof -
  have g: "load_high_score_g file = Inr hs \<and> 0 \<le> hs \<longrightarrow>
      (case game_loop file t0 fs of
         Inl e \<Rightarrow> False
       | Inr g \<Rightarrow>
           high_score_g g = max hs (score_g g) \<and>
           store_g g = (if game_over g then Some (py_str (max hs (score_g g))) else file))"
  proof
    assume h: "load_high_score_g file = Inr hs \<and> 0 \<le> hs"
    let ?g = "run_g (game_variables file hs t0) fs"
    from h have "high_ok hs (game_variables file hs t0)"
      by (simp add: high_ok_def game_variables_def)
    then have "high_ok hs ?g" by (rule high_ok_run_g)
    then have hi: "high_score_g ?g = max hs (score_g ?g)" by (simp add: high_ok_def)
    have st: "store_g ?g = file" by (simp add: store_run_g game_variables_def)
    from h hi st
    show "case game_loop file t0 fs of
         Inl e \<Rightarrow> False
       | Inr g \<Rightarrow>
           high_score_g g = max hs (score_g g) \<and>
           store_g g = (if game_over g then Some (py_str (max hs (score_g g))) else file)"
      by (simp add: game_loop_def game_loop_init_def Let_def game_over_sequence_def
          save_high_score_g_def)
  qed
  from tick_store [of f s] g show ?thesis by blast
qed

text \<open>
  The theorem at the session \<open>last_life\<close>, which ends in the next frame with 9 points
  against a known high score of 0, and at the crowded gemini run without a file.
\<close>

theorem high_score_persisted_witness:
  "ends_session quiet_frame last_life \<and> high_score last_life = 0 \<and> store last_life = None \<and>
   score (tick quiet_frame last_life) = 9 \<and>
   store (tick quiet_frame last_life) = Some ''9'' \<and>
   high_score (tick quiet_frame last_life) = 9 \<and>
   load_high_score_g None = Inr 0 \<and>
   game_loop None 0 (crowded_prefix @ [crowded_last]) = Inr crowded_final \<and>
   game_over crowded_final \<and> store_g crowded_final = Some ''0''"
proof -
  have h: "ends_session quiet_frame last_life" "high_score last_life = 0" "store last_life = None"
    "score (tick quiet_frame last_life) = 9" "py_str 9 = ''9''" "load_high_score_g None = Inr 0"
    by code_simp+
  from high_score_persisted [of quiet_frame last_life None 0 0 "crowded_prefix @ [crowded_last]"]
    h game_loop_crowded
  show ?thesis by (simp add: crowded_final_def)
qed

section \<open>Object identity in the live lists\<close>

lemma remove_eq_split:
  "same_value a v \<Longrightarrow> \<exists>pre'. remove_eq v (pre @ a # rest) = pre' @ rest"
proof (induction pre)
  case Nil
  then show ?case by simp
next
  case (Cons b pre)
  show ?case
  proof (cases "same_value b v")
    case True
    have "remove_eq v ((b # pre) @ a # rest) = (pre @ [a]) @ rest"
      using True by simp
    then show ?thesis by blast
  next
    case False
    from Cons obtain pre' where "remove_eq v (pre @ a # rest) = pre' @ rest" by blast
    with False have "remove_eq v ((b # pre) @ a # rest) = (b # pre') @ rest" by simp
    then show ?thesis by blast
  qed
qed

lemma set_remove_eq: "set (remove_eq v l) \<subseteq> set l"
  by (induction l) auto

lemma distinct_remove_eq: "distinct (map sh_id l) \<Longrightarrow> distinct (map sh_id (remove_eq v l))"
proof (induction l)
  case Nil
  then show ?case by simp
next
  case (Cons a l)
  from set_remove_eq [of v l] have "sh_id ` set (remove_eq v l) \<subseteq> sh_id ` set l" by blast
  with Cons show ?case by auto
qed

lemma map_id_set_top: "map sh_id (set_top i v l) = map sh_id l"
  by (induction l) (simp_all add: set_top_def)

lemma set_top_other: "i \<notin> sh_id ` set l \<Longrightarrow> set_top i v l = l"
  by (induction l) (auto simp: set_top_def)

lemma set_top_split:
  assumes "distinct (map sh_id (pre @ sh # rest))"
  shows "set_top (sh_id sh) v (pre @ sh # rest) =
         pre @ sh\<lparr> sh_rect := (sh_rect sh)\<lparr> top := v \<rparr> \<rparr> # rest"
proof -
  from assms have "sh_id sh \<notin> sh_id ` set pre" "sh_id sh \<notin> sh_id ` set rest" by auto
  then have "set_top (sh_id sh) v pre = pre" "set_top (sh_id sh) v rest = rest"
    by (simp_all add: set_top_other)
  moreover have "set_top (sh_id sh) v (pre @ sh # rest) =
      set_top (sh_id sh) v pre @ sh\<lparr> sh_rect := (sh_rect sh)\<lparr> top := v \<rparr> \<rparr> # set_top (sh_id sh) v rest"
    by (simp add: set_top_def)
  ultimately show ?thesis by simp
qed

lemma collide_shape_next_id: "next_id (collide_shape g sh) = next_id g"
  by (simp add: collide_shape_cases lose_life_def score_point_def Let_def)

lemma collide_shape_keeps_rest:
  assumes l: "shapes_g g = pre @ sh # rest" and d: "distinct (map sh_id (shapes_g g))"
  shows "\<exists>pre'. shapes_g (collide_shape g sh) = pre' @ rest"
proof -
  have sv: "same_value sh sh" by (simp add: same_value_def)
  from remove_eq_split [OF sv, of pre rest] obtain p1 where
    p1: "remove_eq sh (pre @ sh # rest) = p1 @ rest" by blast
  let ?sh1 = "sh\<lparr> sh_rect := (sh_rect sh)\<lparr> top := screen_height \<rparr> \<rparr>"
  have "same_value ?sh1 ?sh1" by (simp add: same_value_def)
  from remove_eq_split [OF this, of pre rest] obtain p2 where
    p2: "remove_eq ?sh1 (pre @ ?sh1 # rest) = p2 @ rest" by blast
  from d l have st: "set_top (sh_id sh) screen_height (pre @ sh # rest) = pre @ ?sh1 # rest"
    by (simp add: set_top_split)
  have keep: "pre @ sh # rest = (pre @ [sh]) @ rest" by simp
  show ?thesis
    unfolding collide_shape_cases
    using l p1 p2 st keep
    by (auto simp: lose_life_fields score_point_fields simp del: append_assoc)
qed

lemma distinct_collide_shape:
  "distinct (map sh_id (shapes_g g)) \<Longrightarrow> distinct (map sh_id (shapes_g (collide_shape g sh)))"
  by (simp add: collide_shape_cases lose_life_fields score_point_fields distinct_remove_eq
      map_id_set_top)

lemma visits_present_suffix:
  "shapes_g g = pre @ xs \<Longrightarrow> distinct (map sh_id (shapes_g g)) \<Longrightarrow> visits_present g xs"
proof (induction xs arbitrary: g pre)
  case Nil
  show ?case by simp
next
  case (Cons x xs)
  from collide_shape_keeps_rest [OF Cons.prems] obtain pre' where
    "shapes_g (collide_shape g x) = pre' @ xs" by blast
  from Cons.IH [OF this distinct_collide_shape [OF Cons.prems(2)]] Cons.prems(1)
  show ?case by simp
qed

lemma next_id_handle_events_g: "next_id (handle_events_g f g) = next_id g"
proof -
  have e: "next_id (handle_event_g g e) = next_id g" for g e
    by (cases e) simp_all
  have "next_id (foldl handle_event_g g es) = next_id g" for es
    by (induction es arbitrary: g) (simp_all add: e)
  then show ?thesis by (simp add: handle_events_g_def)
qed

lemma ids_ok_moved_g: "ids_ok g \<Longrightarrow> ids_ok (moved_g f g)"
  by (auto simp: ids_ok_def moved_g_def move_shapes_def spawn_g_def move_zones_def
      handle_events_g_fields next_id_handle_events_g move_shape_def comp_def list_all_iff
      less_Suc_eq)

lemma ids_ok_collide_shape: "ids_ok g \<Longrightarrow> ids_ok (collide_shape g sh)"
proof -
  assume ok: "ids_ok g"
  have "list_all (\<lambda>a. sh_id a < next_id g) (shapes_g (collide_shape g sh))"
  proof -
    have "sh_id ` set (shapes_g (collide_shape g sh)) \<subseteq> sh_id ` set (shapes_g g)"
    proof -
      have "sh_id ` set (remove_eq v (set_top i t l)) \<subseteq> sh_id ` set l" for v i t l
      proof -
        have "sh_id ` set (remove_eq v (set_top i t l)) \<subseteq> sh_id ` set (set_top i t l)"
          using set_remove_eq [of v "set_top i t l"] by blast
        also have "\<dots> = set (map sh_id (set_top i t l))" by simp
        also have "\<dots> = sh_id ` set l" by (simp add: map_id_set_top)
        finally show ?thesis .
      qed
      moreover have "sh_id ` set (remove_eq v l) \<subseteq> sh_id ` set l" for v l
        using set_remove_eq [of v l] by blast
      ultimately show ?thesis
        by (simp add: collide_shape_cases lose_life_fields score_point_fields)
    qed
    with ok show ?thesis by (auto simp: ids_ok_def list_all_iff)
  qed
  with ok distinct_collide_shape [of g sh] show ?thesis
    by (simp add: ids_ok_def collide_shape_next_id)
qed

lemma ids_ok_tick_g: "ids_ok g \<Longrightarrow> ids_ok (tick_g f g)"
  unfolding tick_g_eq
  by (rule foldl_invariant [where P = ids_ok]) (simp_all add: ids_ok_moved_g ids_ok_collide_shape)

lemma ids_ok_run_g: "ids_ok g \<Longrightarrow> ids_ok (run_g g fs)"
  by (induction fs arbitrary: g) (simp_all add: ids_ok_tick_g)

lemma collide_loop_suffix:
  "ids_ok (run_g (game_variables file hs t0) fs) \<and>
   (ids_ok g \<longrightarrow> visits_present (moved_g f g) (shapes_g (moved_g f g)))"
proof -
  have "ids_ok (game_variables file hs t0)" by (simp add: ids_ok_def game_variables_def)
  then have a: "ids_ok (run_g (game_variables file hs t0) fs)" by (rule ids_ok_run_g)
  have "ids_ok g \<Longrightarrow> visits_present (moved_g f g) (shapes_g (moved_g f g))"
    using ids_ok_moved_g [of g f] visits_present_suffix [of "moved_g f g" "[]"]
    by (simp add: ids_ok_def)
  with a show ?thesis by blast
qed

lemma next_oid_after_checks: "next_oid (after_checks f s) = next_oid (spawn f s)"
proof -
  let ?s1 = "update_shapes (spawn f s)"
  obtain s' tr' where r: "check_shapes ?s1 = (s', tr')" by (cases "check_shapes ?s1")
  from check_shapes_result(7) [OF r] have "next_oid s' = next_oid (spawn f s)"
    by (simp add: update_shapes_def)
  then show ?thesis by (simp add: after_checks_def Let_def r)
qed

lemma oids_ok_update_logic: "oids_ok s \<Longrightarrow> oids_ok (update_logic f s)"
proof (cases "game_state s = STATE_PLAYING")
  case False
  assume "oids_ok s"
  with False show ?thesis by (simp add: update_logic_def)
next
  case True
  assume ok: "oids_ok s"
  from oids_ok_spawn [OF ok, of f]
  have d: "distinct (map oid (moved f s))"
    and b: "list_all (\<lambda>sh. oid sh < next_oid (spawn f s)) (moved f s)"
    by (simp_all add: oids_ok_def moved_eq comp_def list_all_iff)
  have sh: "shapes (update_logic f s) = filter (\<lambda>sh. \<not> resolved (collector s) sh) (moved f s)"
    using update_logic_playing(4) [OF True, of f] remove_resolved [OF d, of "resolved (collector s)"]
    by simp
  have n: "next_oid (update_logic f s) = next_oid (spawn f s)"
    using True by (simp add: update_logic_eq check_game_over_def Let_def next_oid_after_checks)
  from d b show ?thesis
    by (simp add: oids_ok_def sh n distinct_map_filter list_all_iff)
qed

lemma oids_ok_handle_event: "oids_ok s \<Longrightarrow> oids_ok (handle_event t s e)"
  by (cases e) (simp_all add: oids_ok_def)

lemma oids_ok_tick: "oids_ok s \<Longrightarrow> oids_ok (tick f s)"
  unfolding tick_def handle_events_def
  by (rule oids_ok_update_logic, rule foldl_invariant [where P = oids_ok])
    (simp_all add: oids_ok_handle_event)

lemma oids_ok_run: "oids_ok (run (main_init file t0) fs)"
proof -
  have "oids_ok s \<Longrightarrow> oids_ok (run s fs)" for s
    by (induction fs arbitrary: s) (simp_all add: oids_ok_tick)
  moreover have "oids_ok (main_init file t0)" by (simp add: oids_ok_def main_init_def)
  ultimately show ?thesis by blast
qed

section \<open>Iterations of gemini.py: misses, removals and matches\<close>

lemma collide_shape_sounds:
  "sounds_g (collide_shape g sh) =
     sounds_g g @
       (if missed_g g sh then OnMiss # (if lives_g g = 1 then [OnGameOver] else [])
        else if matched_g g sh then [OnMatch] else [])"
  by (auto simp: collide_shape_cases lose_life_fields score_point_fields matched_g_def
      missed_g_def split: option.splits)

lemma collide_shape_misses:
  "misses (sounds_g (collide_shape g sh)) = misses (sounds_g g) + (if missed_g g sh then 1 else 0)"
  by (simp add: collide_shape_sounds misses_def)

lemma foldl_collide_misses:
  "misses (sounds_g (foldl collide_shape g xs)) =
     misses (sounds_g g) + length (filter (missed_g g) xs)"
proof (induction xs arbitrary: g)
  case Nil
  show ?case by simp
next
  case (Cons x xs)
  have z: "zones (collide_shape g x) = zones g" by (simp add: collide_shape_fields)
  show ?case
    by (simp add: Cons.IH [of "collide_shape g x"] collide_shape_misses missed_g_cong [OF z])
qed

lemma moved_g_sounds: "sounds_g (moved_g f g) = sounds_g g"
proof -
  have e: "sounds_g (handle_event_g g e) = sounds_g g" for g e
    by (cases e) simp_all
  have "sounds_g (foldl handle_event_g g es) = sounds_g g" for es
    by (induction es arbitrary: g) (simp_all add: e)
  then show ?thesis
    by (simp add: moved_g_def move_shapes_def spawn_g_def move_zones_def handle_events_g_def)
qed

lemma tick_g_misses:
  "misses (sounds_g (tick_g f g)) =
     misses (sounds_g g) + length (filter (missed_g (moved_g f g)) (shapes_g (moved_g f g)))"
  by (simp add: tick_g_eq foldl_collide_misses moved_g_sounds)

lemma same_value_off_screen: "same_value a b \<Longrightarrow> off_screen_g a = off_screen_g b"
  by (simp add: same_value_def off_screen_g_def)

lemma remove_eq_skip:
  "list_all (\<lambda>a. \<not> same_value a v) pre \<Longrightarrow> same_value x v \<Longrightarrow>
   remove_eq v (pre @ x # rest) = pre @ rest"
  by (induction pre) simp_all

lemma remove_eq_split_set:
  "same_value a v \<Longrightarrow>
   \<exists>pre'. remove_eq v (pre @ a # rest) = pre' @ rest \<and> set pre' \<subseteq> insert a (set pre)"
proof (induction pre)
  case Nil
  have "remove_eq v ([] @ a # rest) = [] @ rest \<and> set [] \<subseteq> insert a (set [])"
    using Nil by simp
  then show ?case by blast
next
  case (Cons b pre)
  show ?case
  proof (cases "same_value b v")
    case True
    have "remove_eq v ((b # pre) @ a # rest) = (pre @ [a]) @ rest \<and>
          set (pre @ [a]) \<subseteq> insert a (set (b # pre))"
      using True by auto
    then show ?thesis by blast
  next
    case False
    from Cons obtain pre' where
      p: "remove_eq v (pre @ a # rest) = pre' @ rest" "set pre' \<subseteq> insert a (set pre)" by blast
    with False have "remove_eq v ((b # pre) @ a # rest) = (b # pre') @ rest \<and>
        set (b # pre') \<subseteq> insert a (set (b # pre))" by auto
    then show ?thesis by blast
  qed
qed

lemma collide_shape_clears:
  assumes l: "shapes_g g = pre @ sh # rest" and d: "distinct (map sh_id (shapes_g g))"
    and c: "list_all (\<lambda>a. \<not> off_screen_g a) pre"
  shows "\<exists>pre'. shapes_g (collide_shape g sh) = pre' @ rest \<and> list_all (\<lambda>a. \<not> off_screen_g a) pre'"
proof (cases "off_screen_g sh")
  case True
  have "list_all (\<lambda>a. \<not> same_value a sh) pre"
    using c True same_value_off_screen [of _ sh] by (auto simp: list_all_iff)
  then have "remove_eq sh (pre @ sh # rest) = pre @ rest"
    by (rule remove_eq_skip) (simp add: same_value_def)
  with True l c show ?thesis
    by (simp add: collide_shape_cases lose_life_fields)
next
  case False
  let ?sh1 = "sh\<lparr> sh_rect := (sh_rect sh)\<lparr> top := screen_height \<rparr> \<rparr>"
  have n1: "\<not> off_screen_g ?sh1" by (simp add: off_screen_g_def)
  have "same_value sh sh" by (simp add: same_value_def)
  from remove_eq_split_set [OF this, of pre rest] obtain p1 where
    p1: "remove_eq sh (pre @ sh # rest) = p1 @ rest" "set p1 \<subseteq> insert sh (set pre)" by blast
  have "same_value ?sh1 ?sh1" by (simp add: same_value_def)
  from remove_eq_split_set [OF this, of pre rest] obtain p2 where
    p2: "remove_eq ?sh1 (pre @ ?sh1 # rest) = p2 @ rest" "set p2 \<subseteq> insert ?sh1 (set pre)" by blast
  from d l have st: "set_top (sh_id sh) screen_height (pre @ sh # rest) = pre @ ?sh1 # rest"
    by (simp add: set_top_split)
  from p1(2) c False have c1: "list_all (\<lambda>a. \<not> off_screen_g a) p1"
    by (auto simp: list_all_iff)
  from p2(2) c n1 have c2: "list_all (\<lambda>a. \<not> off_screen_g a) p2"
    unfolding list_all_iff by blast
  from c False have c3: "list_all (\<lambda>a. \<not> off_screen_g a) (pre @ [sh])"
    by simp
  have keep: "pre @ sh # rest = (pre @ [sh]) @ rest" by simp
  consider (m) "matched_g g sh" | (x) "\<not> matched_g g sh" "missed_g g sh"
    | (n) "\<not> matched_g g sh" "\<not> missed_g g sh" by blast
  then show ?thesis
  proof cases
    case m
    with False l st p2(1) c2 show ?thesis
      by (auto simp: collide_shape_cases score_point_fields)
  next
    case x
    with False l p1(1) c1 show ?thesis
      by (auto simp: collide_shape_cases lose_life_fields)
  next
    case n
    with False l keep c3 show ?thesis
      by (auto simp: collide_shape_cases simp del: append_assoc)
  qed
qed

lemma foldl_collide_clears:
  "shapes_g g = pre @ xs \<Longrightarrow> distinct (map sh_id (shapes_g g)) \<Longrightarrow>
   list_all (\<lambda>a. \<not> off_screen_g a) pre \<Longrightarrow>
   list_all (\<lambda>a. \<not> off_screen_g a) (shapes_g (foldl collide_shape g xs))"
proof (induction xs arbitrary: g pre)
  case Nil
  then show ?case by simp
next
  case (Cons x xs)
  from collide_shape_clears [OF Cons.prems] obtain pre' where
    p: "shapes_g (collide_shape g x) = pre' @ xs" "list_all (\<lambda>a. \<not> off_screen_g a) pre'" by blast
  from Cons.IH [OF p(1) distinct_collide_shape [OF Cons.prems(2)] p(2)]
  show ?case by simp
qed

lemma tick_g_clears:
  "ids_ok g \<Longrightarrow> filter off_screen_g (shapes_g (tick_g f g)) = []"
proof -
  assume "ids_ok g"
  then have "distinct (map sh_id (shapes_g (moved_g f g)))"
    using ids_ok_moved_g [of g f] by (simp add: ids_ok_def)
  from foldl_collide_clears [of "moved_g f g" "[]" "shapes_g (moved_g f g)", OF _ this]
  have "list_all (\<lambda>a. \<not> off_screen_g a) (shapes_g (tick_g f g))"
    by (simp add: tick_g_eq)
  then show ?thesis by (simp add: list_all_iff filter_empty_conv)
qed

lemma run_left: "run_g game_start left_run = left_state"
  by code_simp

section \<open>Frames of chatgpt.py in which nothing happens\<close>

lemma foldl_check_shape_none:
  "list_all (\<lambda>sh. \<not> resolved (collector s) sh) xs \<Longrightarrow> foldl check_shape (s, tr) xs = (s, tr)"
proof (induction xs)
  case Nil
  show ?case by simp
next
  case (Cons x xs)
  then have "\<not> resolved (collector s) x" by simp
  then have "check_shape (s, tr) x = (s, tr)"
    by (simp add: check_shape_eq matched_def resolved_def)
  with Cons show ?case by simp
qed

lemma quiet_tick:
  assumes "game_state s = STATE_PLAYING" and "events f = []"
    and "\<not> ticks_at_update f - last_spawn_time s > SHAPE_SPAWN_INTERVAL"
    and "list_all (\<lambda>sh. \<not> resolved (collector s) (update sh)) (shapes s)"
    and "0 < lives s"
  shows "tick f s = update_shapes s"
proof -
  have sp: "spawn f s = s" using assms(3) by (simp add: spawn_def)
  have "list_all (\<lambda>sh. \<not> resolved (collector (update_shapes s)) sh) (shapes (update_shapes s))"
    using assms(4) by (simp add: update_shapes_def list_all_iff)
  then have "check_shapes (update_shapes s) = (update_shapes s, [])"
    unfolding check_shapes_def by (rule foldl_check_shape_none)
  then have "after_checks f s = update_shapes s"
    by (simp add: after_checks_def sp remove_shapes_def)
  moreover have "lives (update_shapes s) = lives s" by (simp add: update_shapes_def)
  ultimately show ?thesis
    using assms(1,2,5)
    by (simp add: tick_def handle_events_def update_logic_eq check_game_over_def)
qed

lemma update_iter_eq: "(update ^^ n) sh = sh\<lparr> pos_y := pos_y sh + of_nat n * speed sh \<rparr>"
proof (induction n)
  case 0
  show ?case by simp
next
  case (Suc n)
  then show ?case by (simp add: update_def algebra_simps)
qed

lemma quiet_run:
  assumes "game_state s = STATE_PLAYING" and "running s" and "0 < lives s" and "events f = []"
    and "\<not> ticks_at_update f - last_spawn_time s > SHAPE_SPAWN_INTERVAL"
    and "\<And>k. 1 \<le> k \<Longrightarrow> k \<le> n \<Longrightarrow>
           list_all (\<lambda>sh. \<not> resolved (collector s) ((update ^^ k) sh)) (shapes s)"
  shows "run s (replicate n f) = s\<lparr> shapes := map (update ^^ n) (shapes s) \<rparr>"
  using assms
proof (induction n arbitrary: s)
  case 0
  show ?case by simp
next
  case (Suc n)
  from Suc.prems(6) [of 1] have one: "list_all (\<lambda>sh. \<not> resolved (collector s) (update sh)) (shapes s)"
    by simp
  from quiet_tick [OF Suc.prems(1) Suc.prems(4) Suc.prems(5) one Suc.prems(3)]
  have t: "tick f s = update_shapes s" .
  have later: "list_all (\<lambda>sh. \<not> resolved (collector (update_shapes s)) ((update ^^ k) sh))
                 (shapes (update_shapes s))" if "1 \<le> k" "k \<le> n" for k
  proof -
    from that Suc.prems(6) [of "Suc k"]
    have "list_all (\<lambda>sh. \<not> resolved (collector s) ((update ^^ Suc k) sh)) (shapes s)" by simp
    then show ?thesis
      by (simp add: update_shapes_def list_all_iff funpow_swap1)
  qed
  have "run (update_shapes s) (replicate n f) =
        (update_shapes s)\<lparr> shapes := map (update ^^ n) (shapes (update_shapes s)) \<rparr>"
    using Suc.prems(1-5) later
    by (intro Suc.IH) (simp_all add: update_shapes_def)
  with Suc.prems(2) t show ?case
    by (simp add: update_shapes_def funpow_swap1 comp_def)
qed

lemma tick_first_frame: "tick first_frame (main_init None 0) = flight (- 47)"
  by code_simp

lemma run_flight:
  "run (main_init None 0) (first_frame # replicate 255 later_frame) = flight 718"
proof -
  have c: "zones_y (collector (flight (- 47))) = 750"
    by (simp add: flight_def new_CollectorZones_def HEIGHT_def BOTTOM_MARGIN_def)
  have free: "list_all (\<lambda>sh. \<not> resolved (collector (flight (- 47))) ((update ^^ k) sh))
                (shapes (flight (- 47)))" if "1 \<le> k" "k \<le> 255" for k
  proof -
    from that have "(of_nat k :: rat) \<le> 255" by simp
    then have "(of_nat k :: rat) * 3 < 767" by simp
    then show ?thesis
      by (simp add: update_iter_eq resolved_def at_zone_row_def is_off_screen_def c HEIGHT_def)
        (simp add: flight_def new_FallingShape_def)
  qed
  have "run (flight (- 47)) (replicate 255 later_frame) =
        (flight (- 47))\<lparr> shapes := map (update ^^ 255) (shapes (flight (- 47))) \<rparr>"
  proof (rule quiet_run)
    show "game_state (flight (- 47)) = STATE_PLAYING" by (simp add: flight_def)
    show "running (flight (- 47))" by (simp add: flight_def)
    show "0 < lives (flight (- 47))" by (simp add: flight_def)
    show "events later_frame = []" by (simp add: later_frame_def)
    show "\<not> ticks_at_update later_frame - last_spawn_time (flight (- 47)) > SHAPE_SPAWN_INTERVAL"
      by (simp add: flight_def later_frame_def SHAPE_SPAWN_INTERVAL_def)
    show "list_all (\<lambda>sh. \<not> resolved (collector (flight (- 47))) ((update ^^ k) sh))
            (shapes (flight (- 47)))" if "1 \<le> k" "k \<le> 255" for k
      using that by (rule free)
  qed
  also have "\<dots> = flight 718"
    by (simp add: flight_def update_iter_eq new_FallingShape_def)
  finally have "run (flight (- 47)) (replicate 255 later_frame) = flight 718" .
  moreover have "running (main_init None 0)" by (simp add: main_init_def)
  ultimately show ?thesis by (simp add: tick_first_frame)
qed

lemma shipped_handle_event: "shipped s \<Longrightarrow> shipped (handle_event t s e)"
  by (cases e)
    (simp_all add: shipped_def move_left_def move_right_def new_CollectorZones_def HEIGHT_def
      BOTTOM_MARGIN_def)

lemma shipped_moved:
  assumes "shipped s" and "a \<in> set (moved f s)"
  shows "0 \<le> radius a"
proof -
  from assms(2) obtain b where b: "b \<in> set (shapes (spawn f s))" "a = update b"
    by (auto simp: moved_eq)
  from b(1) assms(1) have "0 \<le> radius b"
    by (auto simp: spawn_shapes shipped_def list_all_iff new_FallingShape_def split: if_splits)
  with b(2) show ?thesis by (simp add: update_def)
qed

lemma shipped_update_logic: "shipped s \<Longrightarrow> shipped (update_logic f s)"
proof (cases "game_state s = STATE_PLAYING")
  case False
  assume "shipped s"
  with False show ?thesis by (simp add: update_logic_def)
next
  case True
  assume ok: "shipped s"
  have "set (shapes (update_logic f s)) \<subseteq> set (moved f s)"
    by (simp add: update_logic_playing(4) [OF True] set_remove_shapes)
  with shipped_moved [OF ok, of _ f] have "list_all (\<lambda>sh. 0 \<le> radius sh) (shapes (update_logic f s))"
    by (auto simp: list_all_iff)
  with ok show ?thesis
    by (simp add: shipped_def update_logic_playing(6) [OF True])
qed

lemma shipped_tick: "shipped s \<Longrightarrow> shipped (tick f s)"
  unfolding tick_def handle_events_def
  by (rule shipped_update_logic, rule foldl_invariant [where P = shipped])
    (simp_all add: shipped_handle_event)

lemma shipped_run: "shipped (run (main_init file t0) fs)"
proof -
  have "shipped s \<Longrightarrow> shipped (run s fs)" for s
    by (induction fs arbitrary: s) (simp_all add: shipped_tick)
  moreover have "shipped (main_init file t0)"
    by (simp add: shipped_def main_init_def new_CollectorZones_def HEIGHT_def BOTTOM_MARGIN_def)
  ultimately show ?thesis by blast
qed

lemma no_silent_exit:
  "shipped s \<Longrightarrow> filter (\<lambda>sh. \<not> at_zone_row (collector s) sh \<and> is_off_screen sh) (moved f s) = []"
proof -
  assume ok: "shipped s"
  have "\<not> (\<not> at_zone_row (collector s) a \<and> is_off_screen a)" if "a \<in> set (moved f s)" for a
    using off_screen_at_zone_row [of a "collector s"] shipped_moved [OF ok that] ok
    by (auto simp: shipped_def)
  then show ?thesis by (simp add: filter_empty_conv)
qed

section \<open>Misses below the screen\<close>

lemma length_filter_disj:
  "(\<And>x. \<not> (P x \<and> Q x)) \<Longrightarrow>
   length (filter (\<lambda>x. P x \<or> Q x) xs) = length (filter P xs) + length (filter Q xs)"
  by (induction xs) auto

lemma lost_split:
  "length (filter (\<lambda>sh. resolved c sh \<and> \<not> matched c sh) xs) =
     length (filter (mismatched c) xs) + length (filter (fell_out c) xs)"
proof -
  have "(\<lambda>sh. resolved c sh \<and> \<not> matched c sh) = (\<lambda>sh. mismatched c sh \<or> fell_out c sh)"
    by (auto simp: resolved_def matched_def mismatched_def fell_out_def)
  moreover have "\<not> (mismatched c x \<and> fell_out c x)" for x
    by (simp add: mismatched_def fell_out_def)
  ultimately show ?thesis by (simp add: length_filter_disj)
qed

lemma misses_append: "misses (xs @ ys) = misses xs + misses ys"
  by (simp add: misses_def)

lemma misses_notice:
  "misses (map (notice c) xs) = length (filter (\<lambda>sh. \<not> matched c sh) xs)"
  by (induction xs) (simp_all add: misses_def notice_def)

lemma misses_resolved:
  "misses (map (notice c) (filter (resolved c) xs)) =
     length (filter (mismatched c) xs) + length (filter (fell_out c) xs)"
proof -
  have "filter (\<lambda>sh. \<not> matched c sh) (filter (resolved c) xs) =
        filter (\<lambda>sh. resolved c sh \<and> \<not> matched c sh) xs"
    by (simp add: conj_commute)
  then show ?thesis by (simp add: misses_notice lost_split)
qed

lemma run_crowded_low:
  "run_g game_start (crowded_prefix @ replicate 14 (keys_g [] 8 RED 500)) = crowded_low"
proof -
  have "run_g crowded_state (replicate 14 (keys_g [] 8 RED 500)) = crowded_low"
    by code_simp
  then show ?thesis by (simp add: run_g_append run_crowded_prefix)
qed

text \<open>
  Claim C4. chatgpt.py: in a playing frame the lives fall by the number of mismatched
  shapes plus the number of shapes that are off-screen without being at the zone row,
  the miss sound is played once for each of them, and the live list afterwards holds
  neither a shape at the zone row nor an off-screen shape; in every state that a run
  from the start of the program reaches no moved shape is off-screen without being at
  the zone row (the zone row lies above the bottom of the screen), so no shape leaves the
  screen unaccounted for. gemini.py: in every iteration the lives fall by the number of
  missed shapes and the miss sound is played once for each of them, a shape below the
  screen is a missed one whatever zone it passed, and after the iteration no shape below
  the screen is left in the live list.
\<close>

theorem off_screen_is_a_miss:
  "(game_state s = STATE_PLAYING \<and> oids_ok s \<longrightarrow>
      lives (update_logic f s) =
        lives s - int (length (filter (mismatched (collector s)) (moved f s)))
                - int (length (filter (fell_out (collector s)) (moved f s))) \<and>
      misses (sounds (update_logic f s)) =
        misses (sounds s) + length (filter (mismatched (collector s)) (moved f s))
                          + length (filter (fell_out (collector s)) (moved f s)) \<and>
      shapes (update_logic f s) =
        filter (\<lambda>sh. \<not> at_zone_row (collector s) sh \<and> \<not> is_off_screen sh) (moved f s)) \<and>
   filter (fell_out (collector (run (main_init file t0) fs))) (moved f' (run (main_init file t0) fs)) = [] \<and>
   lives_g (tick_g fg g) =
     lives_g g - int (length (filter (missed_g (moved_g fg g)) (shapes_g (moved_g fg g)))) \<and>
   misses (sounds_g (tick_g fg g)) =
     misses (sounds_g g) + length (filter (missed_g (moved_g fg g)) (shapes_g (moved_g fg g))) \<and>
   missed_g g' sh' =
     (off_screen_g sh' \<or> (\<exists>z. hit_zone g' sh' = Some z \<and> sh_color sh' \<noteq> zone_color z)) \<and>
   (ids_ok g \<longrightarrow> filter off_screen_g (shapes_g (tick_g fg g)) = [])"
proof -
  have a: "game_state s = STATE_PLAYING \<and> oids_ok s \<longrightarrow>
      lives (update_logic f s) =
        lives s - int (length (filter (mismatched (collector s)) (moved f s)))
                - int (length (filter (fell_out (collector s)) (moved f s))) \<and>
      misses (sounds (update_logic f s)) =
        misses (sounds s) + length (filter (mismatched (collector s)) (moved f s))
                          + length (filter (fell_out (collector s)) (moved f s)) \<and>
      shapes (update_logic f s) =
        filter (\<lambda>sh. \<not> at_zone_row (collector s) sh \<and> \<not> is_off_screen sh) (moved f s)"
  proof
    assume h: "game_state s = STATE_PLAYING \<and> oids_ok s"
    then have p: "game_state s = STATE_PLAYING" and d: "distinct (map oid (moved f s))"
      by (simp_all add: oids_ok_moved)
    have l: "lives (update_logic f s) =
        lives s - int (length (filter (mismatched (collector s)) (moved f s)))
                - int (length (filter (fell_out (collector s)) (moved f s)))"
      by (simp add: update_logic_playing(2) [OF p] lost_split)
    have m: "misses (sounds (update_logic f s)) =
        misses (sounds s) + length (filter (mismatched (collector s)) (moved f s))
                          + length (filter (fell_out (collector s)) (moved f s))"
      by (simp add: update_logic_playing(3) [OF p] misses_append misses_resolved)
        (simp add: misses_def)
    have r: "shapes (update_logic f s) =
        filter (\<lambda>sh. \<not> at_zone_row (collector s) sh \<and> \<not> is_off_screen sh) (moved f s)"
      using update_logic_playing(4) [OF p, of f] remove_resolved [OF d, of "resolved (collector s)"]
      by (simp add: resolved_def)
    from l m r show "lives (update_logic f s) =
        lives s - int (length (filter (mismatched (collector s)) (moved f s)))
                - int (length (filter (fell_out (collector s)) (moved f s))) \<and>
      misses (sounds (update_logic f s)) =
        misses (sounds s) + length (filter (mismatched (collector s)) (moved f s))
                          + length (filter (fell_out (collector s)) (moved f s)) \<and>
      shapes (update_logic f s) =
        filter (\<lambda>sh. \<not> at_zone_row (collector s) sh \<and> \<not> is_off_screen sh) (moved f s)"
      by blast
  qed
  have b: "filter (fell_out (collector (run (main_init file t0) fs)))
             (moved f' (run (main_init file t0) fs)) = []"
    using no_silent_exit [OF shipped_run [of "file" t0 fs], of f']
    by (simp add: fell_out_def [abs_def])
  have c: "missed_g g' sh' =
     (off_screen_g sh' \<or> (\<exists>z. hit_zone g' sh' = Some z \<and> sh_color sh' \<noteq> zone_color z))"
    by (simp add: missed_g_def split: option.splits)
  have d: "ids_ok g \<longrightarrow> filter off_screen_g (shapes_g (tick_g fg g)) = []"
    by (simp add: tick_g_clears)
  from a b c d tick_g_lives [of fg g] tick_g_misses [of fg g] show ?thesis by blast
qed

text \<open>
  The theorem at the end of the chatgpt run \<open>first_frame\<close>, 255 times \<open>later_frame\<close>,
  where the next frame takes a life for the red shape, and at the gemini state
  \<open>crowded_low\<close>, where the next iteration takes a life for the shape that leaves the
  screen without having met a zone.
\<close>

theorem off_screen_is_a_miss_witness:
  "run (main_init None 0) (first_frame # replicate 255 later_frame) = flight 718 \<and>
   game_state (flight 718) = STATE_PLAYING \<and> oids_ok (flight 718) \<and>
   lives (flight 718) = 3 \<and> lives (update_logic later_frame (flight 718)) = 2 \<and>
   misses (sounds (update_logic later_frame (flight 718))) = 1 \<and>
   shapes (update_logic later_frame (flight 718)) = [] \<and>
   run_g game_start (crowded_prefix @ replicate 14 (keys_g [] 8 RED 500)) = crowded_low \<and>
   ids_ok crowded_low \<and> lives_g crowded_low = 3 \<and>
   shape_tops (moved_g (keys_g [] 8 RED 500) crowded_low) = [(0, 805), (1, 800), (2, 795), (3, 790)] \<and>
   lives_g (tick_g (keys_g [] 8 RED 500) crowded_low) = 2 \<and>
   misses (sounds_g (tick_g (keys_g [] 8 RED 500) crowded_low)) = 1 \<and>
   filter off_screen_g (shapes_g (tick_g (keys_g [] 8 RED 500) crowded_low)) = [] \<and>
   shape_tops (tick_g (keys_g [] 8 RED 500) crowded_low) = [(1, 800), (2, 795), (3, 790)]"
proof -
  have h: "game_state (flight 718) = STATE_PLAYING" "oids_ok (flight 718)"
    "lives (flight 718) = 3" "misses (sounds (flight 718)) = 0"
    "length (filter (mismatched (collector (flight 718))) (moved later_frame (flight 718))) = 1"
    "length (filter (fell_out (collector (flight 718))) (moved later_frame (flight 718))) = 0"
    "filter (\<lambda>sh. \<not> at_zone_row (collector (flight 718)) sh \<and> \<not> is_off_screen sh)
       (moved later_frame (flight 718)) = []"
    by code_simp+
  have k: "ids_ok crowded_low" "lives_g crowded_low = 3" "misses (sounds_g crowded_low) = 0"
    "length (filter (missed_g (moved_g (keys_g [] 8 RED 500) crowded_low))
       (shapes_g (moved_g (keys_g [] 8 RED 500) crowded_low))) = 1"
    "shape_tops (moved_g (keys_g [] 8 RED 500) crowded_low) = [(0, 805), (1, 800), (2, 795), (3, 790)]"
    "shape_tops (tick_g (keys_g [] 8 RED 500) crowded_low) = [(1, 800), (2, 795), (3, 790)]"
    by code_simp+
  from off_screen_is_a_miss [of "flight 718" later_frame None 0 "[]" later_frame
      "keys_g [] 8 RED 500" crowded_low crowded_low "red_square 0 805"]
    h k run_flight run_crowded_low
  show ?thesis by simp
qed

section \<open>Matching by overlap\<close>

lemma hit_zone_first:
  "hit_zone g sh = Some z \<Longrightarrow>
     \<exists>i<length (zones g). z = zones g ! i \<and> colliderect (sh_rect sh) (zone_rect z) \<and>
       (\<forall>j<i. \<not> colliderect (sh_rect sh) (zone_rect (zones g ! j)))"
  by (auto simp: hit_zone_def find_Some_iff)

lemma run_left_match:
  "zones (moved_g (keys_g [] 2 RED 50) left_state) = [zone_at RED 0, zone_at GREEN 200, zone_at BLUE 400]"
  "shapes_g (moved_g (keys_g [] 2 RED 50) left_state) = [square_at 0 RED 50 715]"
  "hit_zone (moved_g (keys_g [] 2 RED 50) left_state) (square_at 0 RED 50 715) = Some (zone_at RED 0)"
  "zone_position left_state = 1"
  "score_g (tick_g (keys_g [] 2 RED 50) left_state) = 1"
  "lives_g (tick_g (keys_g [] 2 RED 50) left_state) = 3"
  "shapes_g (tick_g (keys_g [] 2 RED 50) left_state) = []"
  by code_simp+

lemma run_twenty_red:
  "score_g (run_g twenty_state (replicate 9 (keys_g [] 42 RED 250))) = 20"
  "lives_g (run_g twenty_state (replicate 9 (keys_g [] 42 RED 250))) = 2"
  "shapes_g (run_g twenty_state (replicate 9 (keys_g [] 42 RED 250))) = []"
  by code_simp+

text \<open>
  Claim C10. In gemini.py every iteration adds to the score the number of live shapes
  that are matched and takes from the lives the number that are missed, where a shape
  that is not below the screen is matched exactly when it has the colour of the zone
  that \<open>hit_zone\<close> finds for it: the first zone, in list order, whose rectangle the
  shape's rectangle overlaps. Which zone that is depends on the shape's horizontal
  position, not on one fixed slot. In the run \<open>left_run\<close> from the start state (zone
  position 1, the green zone in the middle) a red shape at x = 50 comes down over the
  red left zone and is matched by it; in the run \<open>twenty_prefix\<close> nineteen green shapes
  at x = 250 are matched by the middle zone, and nine iterations later the red shape at
  x = 250 is a miss at that same zone.
\<close>

theorem match_by_overlap:
  "score_g (tick_g f g) =
     score_g g + int (length (filter (matched_g (moved_g f g)) (shapes_g (moved_g f g)))) \<and>
   lives_g (tick_g f g) =
     lives_g g - int (length (filter (missed_g (moved_g f g)) (shapes_g (moved_g f g)))) \<and>
   matched_g g' sh =
     (\<not> off_screen_g sh \<and> (\<exists>z. hit_zone g' sh = Some z \<and> sh_color sh = zone_color z)) \<and>
   (hit_zone g' sh = Some z \<longrightarrow>
      (\<exists>i<length (zones g'). z = zones g' ! i \<and> colliderect (sh_rect sh) (zone_rect z) \<and>
         (\<forall>j<i. \<not> colliderect (sh_rect sh) (zone_rect (zones g' ! j))))) \<and>
   run_g game_start left_run = left_state \<and> zone_position left_state = 1 \<and>
   zones (moved_g (keys_g [] 2 RED 50) left_state) = [zone_at RED 0, zone_at GREEN 200, zone_at BLUE 400] \<and>
   shapes_g (moved_g (keys_g [] 2 RED 50) left_state) = [square_at 0 RED 50 715] \<and>
   hit_zone (moved_g (keys_g [] 2 RED 50) left_state) (square_at 0 RED 50 715) = Some (zone_at RED 0) \<and>
   score_g left_state = 0 \<and> score_g (tick_g (keys_g [] 2 RED 50) left_state) = 1 \<and>
   shapes_g (tick_g (keys_g [] 2 RED 50) left_state) = [] \<and>
   run_g game_start twenty_prefix = twenty_state \<and> score_g twenty_state = 19 \<and>
   lives_g twenty_state = 3 \<and>
   score_g (run_g twenty_state (replicate 9 (keys_g [] 42 RED 250))) = 20 \<and>
   lives_g (run_g twenty_state (replicate 9 (keys_g [] 42 RED 250))) = 2"
proof -
  have a: "matched_g g' sh =
     (\<not> off_screen_g sh \<and> (\<exists>z. hit_zone g' sh = Some z \<and> sh_color sh = zone_color z))"
    by (simp add: matched_g_def split: option.splits)
  have b: "hit_zone g' sh = Some z \<longrightarrow>
      (\<exists>i<length (zones g'). z = zones g' ! i \<and> colliderect (sh_rect sh) (zone_rect z) \<and>
         (\<forall>j<i. \<not> colliderect (sh_rect sh) (zone_rect (zones g' ! j))))"
    using hit_zone_first [of g' sh z] by blast
  have c: "score_g left_state = 0" "score_g twenty_state = 19" "lives_g twenty_state = 3"
    by (simp_all add: left_state_def twenty_state_def)
  from a b c tick_g_score [of f g] tick_g_lives [of f g] run_left run_left_match(4,1,2,3,5,7)
    run_twenty_prefix run_twenty_red(1,2)
  show ?thesis by blast
qed

text \<open>
  The theorem at \<open>twenty_state\<close>, reached by the run \<open>twenty_prefix\<close>: in the next
  iteration the green shape 19 overlaps the middle zone, the second in the list, and not
  the left one before it, and is matched.
\<close>

theorem match_by_overlap_witness:
  "run_g game_start twenty_prefix = twenty_state \<and>
   zones (moved_g (keys_g [] 42 RED 250) twenty_state) = [zone_at RED 0, zone_at GREEN 200, zone_at BLUE 400] \<and>
   shapes_g (moved_g (keys_g [] 42 RED 250) twenty_state) =
     [square_at 19 GREEN 250 715, square_at 20 RED 250 665] \<and>
   hit_zone (moved_g (keys_g [] 42 RED 250) twenty_state) (square_at 19 GREEN 250 715) =
     Some (zone_at GREEN 200) \<and>
   \<not> colliderect (sh_rect (square_at 19 GREEN 250 715)) (zone_rect (zone_at RED 0)) \<and>
   matched_g (moved_g (keys_g [] 42 RED 250) twenty_state) (square_at 19 GREEN 250 715) \<and>
   score_g (tick_g (keys_g [] 42 RED 250) twenty_state) = 20 \<and>
   lives_g (tick_g (keys_g [] 42 RED 250) twenty_state) = 3"
proof -
  let ?g = "moved_g (keys_g [] 42 RED 250) twenty_state"
  let ?sh = "square_at 19 GREEN 250 715"
  have h: "zones ?g = [zone_at RED 0, zone_at GREEN 200, zone_at BLUE 400]"
    "shapes_g ?g = [?sh, square_at 20 RED 250 665]"
    "hit_zone ?g ?sh = Some (zone_at GREEN 200)"
    "\<not> colliderect (sh_rect ?sh) (zone_rect (zone_at RED 0))"
    "\<not> off_screen_g ?sh"
    "sh_color ?sh = zone_color (zone_at GREEN 200)"
    "int (length (filter (matched_g ?g) (shapes_g ?g))) = 1"
    "int (length (filter (missed_g ?g) (shapes_g ?g))) = 0"
    "score_g twenty_state = 19" "lives_g twenty_state = 3"
    by code_simp+
  from match_by_overlap [of "keys_g [] 42 RED 250" twenty_state ?g ?sh "zone_at GREEN 200"]
  have "score_g (tick_g (keys_g [] 42 RED 250) twenty_state) =
          score_g twenty_state + int (length (filter (matched_g ?g) (shapes_g ?g)))"
    and "lives_g (tick_g (keys_g [] 42 RED 250) twenty_state) =
          lives_g twenty_state - int (length (filter (missed_g ?g) (shapes_g ?g)))"
    and "matched_g ?g ?sh =
          (\<not> off_screen_g ?sh \<and> (\<exists>z. hit_zone ?g ?sh = Some z \<and> sh_color ?sh = zone_color z))"
    by blast+
  with h run_twenty_prefix show ?thesis by simp
qed

end
